theory Spec2Isabelle
  imports Main "HOL-Library.Word" "HOL-Library.Sublist"
begin

unbundle bit_operations_syntax

section \<open>Errors\<close>

text \<open>
  Go errors are values.  \<open>EOF\<close>, \<open>ErrUnexpectedEOF\<close>, \<open>ErrClosedPipe\<close> and
  \<open>ErrShortWrite\<close> are the sentinels of package io, \<open>ErrDevice\<close> stands for any other
  failure of the transport, \<open>Errorf\<close> is a freshly formatted error and \<open>Wrap\<close> an error
  wrapped with a message (\<open>errors.Wrap\<close>).  \<open>errors.WithStack\<close> only attaches a stack
  trace and is modelled as the identity.  \<open>doneServeNext\<close> and \<open>ProtocolError\<close> are the
  two package-level error variables of the RPC server.
\<close>

datatype error =
    EOF
  | ErrUnexpectedEOF
  | ErrClosedPipe
  | ErrShortWrite
  | ErrDevice
  | Errorf string
  | Wrap string error
  | doneServeNext
  | ProtocolError

text \<open>\<open>errors.Wrap\<close> and \<open>errors.Wrapf\<close> return nil when the wrapped error is nil.\<close>

definition errors_Wrap :: "error option \<Rightarrow> string \<Rightarrow> error option" where
  "errors_Wrap err msg = (case err of None \<Rightarrow> None | Some e \<Rightarrow> Some (Wrap msg e))"

section \<open>The byte channel\<close>

text \<open>
  The frame layer works on an \<open>io.ReadWriteCloser\<close>.  It is modelled as an in-memory
  duplex pipe: \<open>rbuf\<close> holds the bytes the peer has sent and that were not read yet,
  \<open>wbuf\<close> the bytes written so far.  \<open>wbudget\<close> injects transport failures: \<open>Some n\<close>
  lets \<open>n\<close> more bytes through and fails every write beyond them, \<open>None\<close> never fails.
  \<open>close_result\<close> is what the first \<open>Close\<close> reports.
\<close>

type_synonym byte = "8 word"

record rwc =
  rbuf :: "byte list"
  wbuf :: "byte list"
  closed :: bool
  wbudget :: "nat option"
  close_result :: "error option"

definition rwc_Read :: "nat \<Rightarrow> rwc \<Rightarrow> byte list \<times> error option \<times> rwc" where
  "rwc_Read n c =
     (if closed c then ([], Some ErrClosedPipe, c)
      else if n = 0 then ([], None, c)
      else if rbuf c = [] then ([], Some EOF, c)
      else (take n (rbuf c), None, c\<lparr>rbuf := drop n (rbuf c)\<rparr>))"

definition rwc_Write :: "byte list \<Rightarrow> rwc \<Rightarrow> nat \<times> error option \<times> rwc" where
  "rwc_Write bs c =
     (if closed c then (0, Some ErrClosedPipe, c)
      else (case wbudget c of
              None \<Rightarrow> (length bs, None, c\<lparr>wbuf := wbuf c @ bs\<rparr>)
            | Some k \<Rightarrow>
                if length bs \<le> k
                then (length bs, None, c\<lparr>wbuf := wbuf c @ bs, wbudget := Some (k - length bs)\<rparr>)
                else (k, Some ErrDevice, c\<lparr>wbuf := wbuf c @ take k bs, wbudget := Some 0\<rparr>)))"

definition rwc_Close :: "rwc \<Rightarrow> error option \<times> rwc" where
  "rwc_Close c =
     (if closed c then (Some ErrClosedPipe, c)
      else (close_result c, c\<lparr>closed := True\<rparr>))"

text \<open>
  \<open>io.ReadFull\<close> reads exactly \<open>n\<close> bytes; it reports \<open>EOF\<close> when the stream ends before
  the first byte and \<open>ErrUnexpectedEOF\<close> when it ends in between.
\<close>

definition io_ReadFull :: "nat \<Rightarrow> rwc \<Rightarrow> (error + byte list) \<times> rwc" where
  "io_ReadFull n c =
     (if n = 0 then (Inr [], c)
      else if closed c then (Inl ErrClosedPipe, c)
      else if n \<le> length (rbuf c) then (Inr (take n (rbuf c)), c\<lparr>rbuf := drop n (rbuf c)\<rparr>)
      else if rbuf c = [] then (Inl EOF, c)
      else (Inl ErrUnexpectedEOF, c\<lparr>rbuf := []\<rparr>))"

text \<open>
  \<open>encoding/binary\<close> with \<open>binary.LittleEndian\<close>: a \<open>uint8\<close> is one byte, a \<open>bool\<close> is
  one byte (written as 0 or 1, read as \<open>b \<noteq> 0\<close>), a \<open>uint32\<close> is four bytes, least
  significant first.  \<open>binary.Write\<close> encodes and hands the bytes to one \<open>Write\<close>;
  \<open>binary.Read\<close> fetches the bytes with \<open>io.ReadFull\<close> and leaves the target
  untouched when that fails.
\<close>

definition PutUint32 :: "32 word \<Rightarrow> byte list" where
  "PutUint32 v = [ucast v, ucast (drop_bit 8 v), ucast (drop_bit 16 v), ucast (drop_bit 24 v)]"

definition Uint32 :: "byte list \<Rightarrow> 32 word" where
  "Uint32 b = ucast (b ! 0) OR push_bit 8 (ucast (b ! 1)) OR push_bit 16 (ucast (b ! 2))
                OR push_bit 24 (ucast (b ! 3))"

definition PutBool :: "bool \<Rightarrow> byte list" where
  "PutBool v = [if v then 1 else 0]"

definition binary_Write :: "byte list \<Rightarrow> rwc \<Rightarrow> error option \<times> rwc" where
  "binary_Write bs c = (case rwc_Write bs c of (n, err, c') \<Rightarrow> (err, c'))"

section \<open>Frame layer (rpc/frame\_layer.go)\<close>

text \<open>
  The file holds two editions of the frame layer.  The first one, with a frame header of
  six bytes and the bridging reader and writer, is modelled here.  The second one (a
  \<open>FrameLayer\<close> with a ten-byte header and a data writer that is not implemented) is an
  unfinished rewrite; its \<open>HangUp\<close> is the one of the first edition word for word.
\<close>

record Frame =
  Type :: byte
  NoMoreFrames :: bool
  PayloadLength :: "32 word"

definition FrameTypeHeader :: byte where "FrameTypeHeader = 0x01"
definition FrameTypeData :: byte where "FrameTypeData = 0x02"
definition FrameTypeTrailer :: byte where "FrameTypeTrailer = 0x03"
definition FrameTypeRST :: byte where "FrameTypeRST = 0xff"

definition MAX_PAYLOAD_LENGTH :: nat where "MAX_PAYLOAD_LENGTH = 4 * 1024 * 1024"
definition MAX_HEADER_LENGTH :: nat where "MAX_HEADER_LENGTH = 4 * 1024"

text \<open>The zero value \<open>Frame{}\<close>.\<close>

definition Frame_zero :: Frame where
  "Frame_zero = \<lparr>Type = 0, NoMoreFrames = False, PayloadLength = 0\<rparr>"

text \<open>
  \<open>MessageLayer\<close> has the channel as its only field, so the functions take and return
  the channel.  \<open>readFrame\<close> fills the named result \<open>f\<close> field by field and returns what
  it has when a read fails; the size check comes after the three reads.
\<close>

definition readFrame :: "rwc \<Rightarrow> Frame \<times> error option \<times> rwc" where
  "readFrame l =
     (let f = Frame_zero in
      case io_ReadFull 1 l of
        (Inl e, l1) \<Rightarrow> (f, Some e, l1)
      | (Inr b1, l1) \<Rightarrow>
         (let f = f\<lparr>Type := b1 ! 0\<rparr> in
          case io_ReadFull 1 l1 of
            (Inl e, l2) \<Rightarrow> (f, Some e, l2)
          | (Inr b2, l2) \<Rightarrow>
             (let f = f\<lparr>NoMoreFrames := (b2 ! 0 \<noteq> 0)\<rparr> in
              case io_ReadFull 4 l2 of
                (Inl e, l3) \<Rightarrow> (f, Some e, l3)
              | (Inr b3, l3) \<Rightarrow>
                 (let f = f\<lparr>PayloadLength := Uint32 b3\<rparr> in
                  if unat (PayloadLength f) > MAX_PAYLOAD_LENGTH
                  then (f, Some (Errorf ''frame exceeds max payload length''), l3)
                  else (f, None, l3)))))"

text \<open>\<open>writeFrame\<close> writes the three header fields and checks the size afterwards.\<close>

definition writeFrame :: "Frame \<Rightarrow> rwc \<Rightarrow> error option \<times> rwc" where
  "writeFrame f l =
     (case binary_Write [Type f] l of
        (Some e, l1) \<Rightarrow> (Some e, l1)
      | (None, l1) \<Rightarrow>
         (case binary_Write (PutBool (NoMoreFrames f)) l1 of
            (Some e, l2) \<Rightarrow> (Some e, l2)
          | (None, l2) \<Rightarrow>
             (case binary_Write (PutUint32 (PayloadLength f)) l2 of
                (Some e, l3) \<Rightarrow> (Some e, l3)
              | (None, l3) \<Rightarrow>
                 if unat (PayloadLength f) > MAX_PAYLOAD_LENGTH
                 then (Some (Errorf ''frame exceeds max payload length''), l3)
                 else (None, l3))))"

text \<open>
  \<open>HangUp\<close> sends a frame \<open>Frame{Type: FrameTypeRST}\<close>, closes the channel and reports
  the first of the two errors.
\<close>

definition HangUp :: "rwc \<Rightarrow> error option \<times> rwc" where
  "HangUp l =
     (let f = Frame_zero\<lparr>Type := FrameTypeRST\<rparr> in
      case writeFrame f l of (rstFrameError, l1) \<Rightarrow>
      case rwc_Close l1 of (closeErr, l2) \<Rightarrow>
        (if rstFrameError \<noteq> None then (rstFrameError, l2) else (closeErr, l2)))"


subsection \<open>The frame-bridging reader\<close>

text \<open>
  The reader's pointer to the message layer is the channel argument.  Go's \<open>int\<close> fields
  are modelled as unbounded integers; no counter of the model leaves the 64-bit range
  while fewer than \<open>2^63\<close> bytes pass through.  \<open>bytesLeftToLimit < 0\<close> means no limit.
\<close>

record frameBridgingReader =
  r_frameType :: byte
  r_bytesLeftToLimit :: int
  r_f :: Frame

definition NewFrameBridgingReader :: "byte \<Rightarrow> int \<Rightarrow> frameBridgingReader" where
  "NewFrameBridgingReader frameType totalLimit =
     \<lparr>r_frameType = frameType, r_bytesLeftToLimit = totalLimit, r_f = Frame_zero\<rparr>"

text \<open>
  The second half of \<open>Read\<close>: clip the request to the rest of the current frame and to
  the limit, read from the channel, and count the bytes off both.
\<close>

definition fbr_readPayload ::
  "nat \<Rightarrow> frameBridgingReader \<Rightarrow> rwc \<Rightarrow> byte list \<times> error option \<times> frameBridgingReader \<times> rwc" where
  "fbr_readPayload lenb r l =
     (let maxread = int lenb;
          maxread = (if maxread > uint (PayloadLength (r_f r))
                     then uint (PayloadLength (r_f r)) else maxread);
          maxread = (if r_bytesLeftToLimit r > 0 \<and> maxread > r_bytesLeftToLimit r
                     then r_bytesLeftToLimit r else maxread)
      in case rwc_Read (nat maxread) l of (bs, err, l') \<Rightarrow>
           (bs, err,
            r\<lparr>r_f := (r_f r)\<lparr>PayloadLength := PayloadLength (r_f r) - of_nat (length bs)\<rparr>,
              r_bytesLeftToLimit := r_bytesLeftToLimit r - int (length bs)\<rparr>,
            l'))"

text \<open>
  \<open>Read(b)\<close> with \<open>len(b) = lenb\<close>.  The result of \<open>readFrame\<close> is stored in \<open>r.f\<close> also
  when it comes with an error.  On a frame of another type the source returns
  \<open>errors.Wrapf(err, ...)\<close> with \<open>err = nil\<close>, which is nil.
\<close>

definition fbr_Read ::
  "nat \<Rightarrow> frameBridgingReader \<Rightarrow> rwc \<Rightarrow> byte list \<times> error option \<times> frameBridgingReader \<times> rwc" where
  "fbr_Read lenb r l =
     (if r_bytesLeftToLimit r = 0 then ([], Some EOF, r, l)
      else if PayloadLength (r_f r) = 0 then
        (if NoMoreFrames (r_f r) then ([], Some EOF, r, l)
         else (case readFrame l of (f, err, l1) \<Rightarrow>
                (let r1 = r\<lparr>r_f := f\<rparr> in
                 if err \<noteq> None then ([], errors_Wrap err ''error reading frame'', r1, l1)
                 else if Type f \<noteq> r_frameType r
                 then ([], errors_Wrap err ''expected frame of type'', r1, l1)
                 else fbr_readPayload lenb r1 l1)))
      else fbr_readPayload lenb r l)"

text \<open>
  A consumer of the byte stream, as \<open>io.Copy\<close> or \<open>ioutil.ReadAll\<close> drive a reader: call
  \<open>Read\<close> with a buffer of \<open>lenb\<close> bytes until it reports an error, and collect what was
  read.  The result is the bytes, the error that ended the stream (\<open>EOF\<close> for a regular
  end) and the final state; \<open>None\<close> when the fuel runs out first.
\<close>

fun fbr_ReadAll ::
  "nat \<Rightarrow> nat \<Rightarrow> frameBridgingReader \<Rightarrow> rwc \<Rightarrow> (byte list \<times> error \<times> frameBridgingReader \<times> rwc) option" where
  "fbr_ReadAll 0 lenb r l = None"
| "fbr_ReadAll (Suc fuel) lenb r l =
     (case fbr_Read lenb r l of
        (bs, Some e, r', l') \<Rightarrow> Some (bs, e, r', l')
      | (bs, None, r', l') \<Rightarrow>
          (case fbr_ReadAll fuel lenb r' l' of
             None \<Rightarrow> None
           | Some (bs', e, r'', l'') \<Rightarrow> Some (bs @ bs', e, r'', l'')))"

subsection \<open>The frame-bridging writer\<close>

record frameBridgingWriter =
  w_frameType :: byte
  w_bytesLeftToLimit :: int
  w_payloadLength :: int
  w_buffer :: "byte list"

definition NewFrameBridgingWriter :: "byte \<Rightarrow> int \<Rightarrow> frameBridgingWriter" where
  "NewFrameBridgingWriter frameType totalLimit =
     \<lparr>w_frameType = frameType, w_bytesLeftToLimit = totalLimit,
      w_payloadLength = int MAX_PAYLOAD_LENGTH, w_buffer = []\<rparr>"

text \<open>
  \<open>bytes.Buffer.WriteTo\<close>: an empty buffer is reset without touching the writer;
  otherwise one \<open>Write\<close> gets the whole content, the bytes it took are dropped, and the
  buffer is reset when all of them were taken.
\<close>

definition Buffer_WriteTo :: "byte list \<Rightarrow> rwc \<Rightarrow> error option \<times> byte list \<times> rwc" where
  "Buffer_WriteTo buf l =
     (if buf = [] then (None, [], l)
      else (case rwc_Write buf l of (m, err, l') \<Rightarrow>
              (case err of
                 Some e \<Rightarrow> (Some e, drop m buf, l')
               | None \<Rightarrow> if m \<noteq> length buf then (Some ErrShortWrite, drop m buf, l')
                         else (None, [], l'))))"

text \<open>
  \<open>flush\<close> drops the error of \<open>writeFrame\<close> (\<open>errors.WithStack(err)\<close> is evaluated and
  thrown away) and returns the error of writing the buffer.
\<close>

definition fbw_flush :: "bool \<Rightarrow> frameBridgingWriter \<Rightarrow> rwc \<Rightarrow> error option \<times> frameBridgingWriter \<times> rwc" where
  "fbw_flush nomore w l =
     (let f = \<lparr>Type = w_frameType w, NoMoreFrames = nomore,
               PayloadLength = of_nat (length (w_buffer w))\<rparr> in
      case writeFrame f l of (err, l1) \<Rightarrow>
      case Buffer_WriteTo (w_buffer w) l1 of (err, buf', l2) \<Rightarrow>
        (err, w\<lparr>w_buffer := buf'\<rparr>, l2))"

text \<open>
  \<open>writeUntilFrameFull\<close>.  A negative \<open>maxwrite\<close> makes the slice expression
  \<open>b[:maxwrite]\<close> panic; that needs a buffer longer than \<open>payloadLength\<close>, which a
  writer made by \<open>NewFrameBridgingWriter\<close> never has.  The model reports it as an error
  of the call.
\<close>

definition writeUntilFrameFull ::
  "byte list \<Rightarrow> frameBridgingWriter \<Rightarrow> rwc \<Rightarrow> nat \<times> error option \<times> frameBridgingWriter \<times> rwc" where
  "writeUntilFrameFull b w l =
     (if length b \<le> 0 then (0, None, w, l)
      else if w_bytesLeftToLimit w = 0
      then (0, Some (Errorf ''exceeded limit of total %v bytes for this message''), w, l)
      else
        (let maxwrite = int (length b);
             remainingInFrame = w_payloadLength w - int (length (w_buffer w));
             maxwrite = (if maxwrite > remainingInFrame then remainingInFrame else maxwrite);
             maxwrite = (if w_bytesLeftToLimit w > 0 \<and> maxwrite > w_bytesLeftToLimit w
                         then w_bytesLeftToLimit w else maxwrite)
         in if maxwrite < 0 then (0, Some (Errorf ''panic: slice bounds out of range''), w, l)
            else
              (let w1 = w\<lparr>w_buffer := w_buffer w @ take (nat maxwrite) b,
                         w_bytesLeftToLimit := w_bytesLeftToLimit w - maxwrite\<rparr>;
                   n = nat maxwrite
               in if w_bytesLeftToLimit w1 = 0 then
                    (case fbw_flush True w1 l of (err, w2, l2) \<Rightarrow> (n, err, w2, l2))
                  else if int (length (w_buffer w1)) = w_payloadLength w1 then
                    (case fbw_flush False w1 l of (err, w2, l2) \<Rightarrow> (n, err, w2, l2))
                  else (n, None, w1, l))))"

text \<open>
  \<open>Write\<close> loops until all of \<open>b\<close> is taken or a step fails.  The loop of the source has
  no bound of its own, so the model counts fuel and returns \<open>None\<close> when it runs out.
\<close>

fun fbw_Write_loop ::
  "nat \<Rightarrow> byte list \<Rightarrow> nat \<Rightarrow> frameBridgingWriter \<Rightarrow> rwc \<Rightarrow>
     (nat \<times> error option \<times> frameBridgingWriter \<times> rwc) option" where
  "fbw_Write_loop 0 b n w l = None"
| "fbw_Write_loop (Suc fuel) b n w l =
     (if n < length b then
        (case writeUntilFrameFull (drop n b) w l of (i, err, w', l') \<Rightarrow>
           (case err of
              Some e \<Rightarrow> Some (n + i, Some e, w', l')
            | None \<Rightarrow> fbw_Write_loop fuel b (n + i) w' l'))
      else Some (n, None, w, l))"

definition fbw_Write ::
  "nat \<Rightarrow> byte list \<Rightarrow> frameBridgingWriter \<Rightarrow> rwc \<Rightarrow>
     (nat \<times> error option \<times> frameBridgingWriter \<times> rwc) option" where
  "fbw_Write fuel b w l = fbw_Write_loop fuel b 0 w l"

definition fbw_Close :: "frameBridgingWriter \<Rightarrow> rwc \<Rightarrow> error option \<times> frameBridgingWriter \<times> rwc" where
  "fbw_Close w l = fbw_flush True w l"

text \<open>
  What the peer finds on its side of the pipe: the bytes written to \<open>l\<close> after the first
  \<open>n\<close>, followed by \<open>rest\<close>.
\<close>

definition peer_of :: "nat \<Rightarrow> rwc \<Rightarrow> byte list \<Rightarrow> rwc" where
  "peer_of n l rest =
     \<lparr>rbuf = drop n (wbuf l) @ rest, wbuf = [], closed = False, wbudget = None,
      close_result = None\<rparr>"

text \<open>
  One frame with its payload, as \<open>flush\<close> puts it on the channel, and the matching read:
  \<open>readFrame\<close> followed by a read of \<open>PayloadLength\<close> bytes.
\<close>

definition write_frame_with_payload ::
  "byte \<Rightarrow> bool \<Rightarrow> byte list \<Rightarrow> rwc \<Rightarrow> error option \<times> rwc" where
  "write_frame_with_payload T nomore P l =
     (case fbw_flush nomore \<lparr>w_frameType = T, w_bytesLeftToLimit = - 1,
                              w_payloadLength = int MAX_PAYLOAD_LENGTH, w_buffer = P\<rparr> l of
        (err, w', l') \<Rightarrow> (err, l'))"

definition read_frame_with_payload :: "rwc \<Rightarrow> (error + Frame \<times> byte list) \<times> rwc" where
  "read_frame_with_payload l =
     (case readFrame l of
        (f, Some e, l1) \<Rightarrow> (Inl e, l1)
      | (f, None, l1) \<Rightarrow>
          (case io_ReadFull (unat (PayloadLength f)) l1 of
             (Inl e, l2) \<Rightarrow> (Inl e, l2)
           | (Inr P, l2) \<Rightarrow> (Inr (f, P), l2)))"

text \<open>
  Writing a byte sequence through a fresh bridging writer (one \<open>Write\<close>, then \<open>Close\<close>)
  and reading the peer's side through a fresh bridging reader of the same frame type and
  limit, with read buffers of \<open>lenb\<close> bytes.  \<open>rest\<close> is what follows on the peer's side.
  The result is what the consumer got and what is left unread.
\<close>

definition stream_roundtrip ::
  "nat \<Rightarrow> nat \<Rightarrow> byte \<Rightarrow> int \<Rightarrow> byte list \<Rightarrow> rwc \<Rightarrow> byte list \<Rightarrow>
     (error + byte list \<times> error \<times> byte list) option" where
  "stream_roundtrip fuel lenb T lim S l rest =
     (case fbw_Write fuel S (NewFrameBridgingWriter T lim) l of
        None \<Rightarrow> None
      | Some (n, Some e, w1, l1) \<Rightarrow> Some (Inl e)
      | Some (n, None, w1, l1) \<Rightarrow>
          (case fbw_Close w1 l1 of
             (Some e, w2, l2) \<Rightarrow> Some (Inl e)
           | (None, w2, l2) \<Rightarrow>
               (case fbr_ReadAll fuel lenb (NewFrameBridgingReader T lim)
                       (peer_of (length (wbuf l)) l2 rest) of
                  None \<Rightarrow> None
                | Some (bs, e, r', l') \<Rightarrow> Some (Inr (bs, e, rbuf l')))))"

subsection \<open>The wire format\<close>

text \<open>
  The six header bytes of a frame, and the bytes of a run of frames of one type that
  carry the chunks \<open>cs\<close>: \<open>encF\<close> marks no frame as the last one, \<open>enc\<close> marks the last.
  A channel is \<open>good\<close> when it is open and its transport does not fail.
\<close>

definition frame_header :: "byte \<Rightarrow> bool \<Rightarrow> nat \<Rightarrow> byte list" where
  "frame_header T nm n = [T] @ PutBool nm @ PutUint32 (of_nat n)"

fun encF :: "byte \<Rightarrow> byte list list \<Rightarrow> byte list" where
  "encF T [] = []"
| "encF T (c # cs) = frame_header T False (length c) @ c @ encF T cs"

fun enc :: "byte \<Rightarrow> byte list list \<Rightarrow> byte list" where
  "enc T [] = []"
| "enc T [c] = frame_header T True (length c) @ c"
| "enc T (c # cs) = frame_header T False (length c) @ c @ enc T cs"

definition good :: "rwc \<Rightarrow> bool" where
  "good l \<longleftrightarrow> \<not> closed l \<and> wbudget l = None"

section \<open>RPC dispatcher (rpc/rpc\_layer.go and its later edition)\<close>






text \<open>The text of an error, \<open>err.Error()\<close>.\<close>

fun Error_text :: "error \<Rightarrow> string" where
  "Error_text EOF = ''EOF''"
| "Error_text ErrUnexpectedEOF = ''unexpected EOF''"
| "Error_text ErrClosedPipe = ''io: read/write on closed pipe''"
| "Error_text ErrShortWrite = ''short write''"
| "Error_text ErrDevice = ''input/output error''"
| "Error_text (Errorf m) = m"
| "Error_text (Wrap m e) = m @ '': '' @ Error_text e"
| "Error_text doneServeNext = ''this should not cause a HangUp() in the server''"
| "Error_text ProtocolError = ''protocol error, server should hang up''"

subsection \<open>The message layer as the dispatcher uses it\<close>









subsection \<open>Endpoints\<close>





subsection \<open>Serving a request: Serve and ServeRequest\<close>





text \<open>
  In the replies below, the texts of the two type-mismatch messages end after the
  endpoint name, and the text for an output that cannot be marshalled leaves the
  encoder's error out; the source goes on to format the type numbers and that error.
\<close>




subsection \<open>Serving a request: ServeConn\<close>



section \<open>ZFS data the handler and the puller share\<close>

text \<open>
  Modelled from the spec: package zfs is not among the sources, so its types are taken
  from the spec's data model and from the way the code uses them.  A dataset path is its
  list of components, serialized with \<open>/\<close>; a filesystem version has the fields
  \<open>Type\<close> (here \<open>vType\<close>), \<open>Name\<close>, \<open>Guid\<close>, \<open>CreateTXG\<close> and \<open>Creation\<close>; a
  filesystem diff has a conflict class and three version paths.  A stream is the bytes
  it delivers.
\<close>

type_synonym DatasetPath = "string list"
type_synonym stream = "byte list"

fun ToString :: "DatasetPath \<Rightarrow> string" where
  "ToString [] = []"
| "ToString [c] = c"
| "ToString (c # cs) = c @ ''/'' @ ToString cs"

datatype VersionType = Bookmark | Snapshot

record FilesystemVersion =
  vType :: VersionType
  Name :: string
  Guid :: "64 word"
  CreateTXG :: "64 word"
  Creation :: nat

definition ToAbsPath :: "FilesystemVersion \<Rightarrow> DatasetPath \<Rightarrow> string" where
  "ToAbsPath v p =
     ToString p @ (case vType v of Snapshot \<Rightarrow> ''@'' | Bookmark \<Rightarrow> ''#'') @ Name v"

datatype Conflict =
  ConflictAllRight | ConflictIncremental | ConflictNoCommonAncestor | ConflictDiverged

record FilesystemDiff =
  Conflict :: Conflict
  MRCAPathLeft :: "FilesystemVersion list"
  MRCAPathRight :: "FilesystemVersion list"
  IncrementalPath :: "FilesystemVersion list"

section \<open>Server-side handler\<close>

text \<open>
  The handler source comes in two editions.  The first has one filter, \<open>PullACL\<close>, and
  \<open>pullACLCheck(p)\<close>; the second has the dataset filter \<open>dsf\<close> and the version filter
  \<open>fsvf\<close>, and \<open>pullACLCheck(p, v)\<close>.  A filter returns \<open>(pass, err)\<close>.  The ZFS
  commands of the serving host are functions of the model; every invocation is recorded,
  so that "not invoked" can be stated.  The logger is left out.
\<close>

type_synonym DatasetFilter = "DatasetPath \<Rightarrow> bool \<times> error option"
type_synonym FilesystemVersionFilter = "FilesystemVersion \<Rightarrow> bool \<times> error option"

datatype zfs_call =
    Call_ZFSListFilesystemVersions DatasetPath
  | Call_ZFSSend DatasetPath FilesystemVersion "FilesystemVersion option"

record zfs_host =
  ZFSListFilesystemVersions ::
    "DatasetPath \<Rightarrow> FilesystemVersionFilter option \<Rightarrow> FilesystemVersion list \<times> error option"
  ZFSSend ::
    "DatasetPath \<Rightarrow> FilesystemVersion \<Rightarrow> FilesystemVersion option \<Rightarrow> stream option \<times> error option"

record FilesystemVersionsRequest =
  fvr_Filesystem :: DatasetPath

record InitialTransferRequest =
  itr_Filesystem :: DatasetPath
  itr_FilesystemVersion :: FilesystemVersion

subsection \<open>Second edition: dataset filter and version filter\<close>

record Handler =
  dsf :: DatasetFilter
  fsvf :: FilesystemVersionFilter

definition pullACLCheck :: "Handler \<Rightarrow> DatasetPath \<Rightarrow> FilesystemVersion option \<Rightarrow> error option" where
  "pullACLCheck h p v =
     (case dsf h p of
        (fsAllowed, Some e) \<Rightarrow> Some (Errorf (''error evaluating ACL: '' @ Error_text e))
      | (fsAllowed, None) \<Rightarrow>
          if \<not> fsAllowed then Some (Errorf (''ACL prohibits access to '' @ ToString p))
          else (case v of
                  None \<Rightarrow> None
                | Some ver \<Rightarrow>
                    (case fsvf h ver of
                       (vAllowed, Some e) \<Rightarrow> Some (Wrap ''error evaluating version filter'' e)
                     | (vAllowed, None) \<Rightarrow>
                         if \<not> vAllowed
                         then Some (Errorf (''ACL prohibits access to '' @ ToAbsPath ver p))
                         else None)))"

text \<open>
  \<open>HandleFilesystemVersionsRequest\<close>: the statement
  \<open>if h.pullACLCheck(r.Filesystem, nil); err != nil { return }\<close> calls the check as the
  init statement of the \<open>if\<close> and drops its result; the condition reads the named result
  \<open>err\<close>, which is still nil.  The result is the error, the versions stored through the
  output pointer, and the ZFS invocations.
\<close>

definition HandleFilesystemVersionsRequest ::
  "Handler \<Rightarrow> zfs_host \<Rightarrow> FilesystemVersionsRequest \<Rightarrow>
     error option \<times> FilesystemVersion list \<times> zfs_call list" where
  "HandleFilesystemVersionsRequest h z r =
     (let err = (None :: error option);
          dropped = pullACLCheck h (fvr_Filesystem r) None
      in if err \<noteq> None then (err, [], [])
         else (case ZFSListFilesystemVersions z (fvr_Filesystem r) (Some (fsvf h)) of
                 (vs, err) \<Rightarrow>
                   if err \<noteq> None
                   then (err, [], [Call_ZFSListFilesystemVersions (fvr_Filesystem r)])
                   else (err, vs, [Call_ZFSListFilesystemVersions (fvr_Filesystem r)])))"

text \<open>
  \<open>HandleInitialTransferRequest\<close> assigns the result of the check to \<open>err\<close> and returns
  on an error; otherwise it invokes \<open>ZFSSend\<close> and stores the stream.
\<close>

definition HandleInitialTransferRequest ::
  "Handler \<Rightarrow> zfs_host \<Rightarrow> InitialTransferRequest \<Rightarrow>
     error option \<times> stream option \<times> zfs_call list" where
  "HandleInitialTransferRequest h z r =
     (case pullACLCheck h (itr_Filesystem r) (Some (itr_FilesystemVersion r)) of
        Some err \<Rightarrow> (Some err, None, [])
      | None \<Rightarrow>
          (case ZFSSend z (itr_Filesystem r) (itr_FilesystemVersion r) None of
             (s, err) \<Rightarrow>
               (err, s, [Call_ZFSSend (itr_Filesystem r) (itr_FilesystemVersion r) None])))"

subsection \<open>First edition: one filter\<close>

record Handler1 =
  PullACL :: DatasetFilter

definition pullACLCheck1 :: "Handler1 \<Rightarrow> DatasetPath \<Rightarrow> error option" where
  "pullACLCheck1 h p =
     (case PullACL h p of
        (allowed, Some e) \<Rightarrow> Some (Errorf (''error evaluating ACL: '' @ Error_text e))
      | (allowed, None) \<Rightarrow>
          if \<not> allowed then Some (Errorf (''ACL prohibits access to '' @ ToString p))
          else None)"

definition HandleFilesystemVersionsRequest1 ::
  "Handler1 \<Rightarrow> zfs_host \<Rightarrow> FilesystemVersionsRequest \<Rightarrow>
     error option \<times> FilesystemVersion list \<times> zfs_call list" where
  "HandleFilesystemVersionsRequest1 h z r =
     (let err = (None :: error option);
          dropped = pullACLCheck1 h (fvr_Filesystem r)
      in if err \<noteq> None then (err, [], [])
         else (case ZFSListFilesystemVersions z (fvr_Filesystem r) None of
                 (vs, err) \<Rightarrow>
                   if err \<noteq> None
                   then (err, [], [Call_ZFSListFilesystemVersions (fvr_Filesystem r)])
                   else (err, vs, [Call_ZFSListFilesystemVersions (fvr_Filesystem r)])))"

definition HandleInitialTransferRequest1 ::
  "Handler1 \<Rightarrow> zfs_host \<Rightarrow> InitialTransferRequest \<Rightarrow>
     error option \<times> stream option \<times> zfs_call list" where
  "HandleInitialTransferRequest1 h z r =
     (case pullACLCheck1 h (itr_Filesystem r) of
        Some err \<Rightarrow> (Some err, None, [])
      | None \<Rightarrow>
          (case ZFSSend z (itr_Filesystem r) (itr_FilesystemVersion r) None of
             (s, err) \<Rightarrow>
               (err, s, [Call_ZFSSend (itr_Filesystem r) (itr_FilesystemVersion r) None])))"

section \<open>Pull orchestrator (doPull)\<close>

text \<open>
  \<open>doPull\<close> hands a closure to \<open>WalkTopDown\<close>; the closure is the work done for one
  filesystem.  Its effects are remote calls and local ZFS commands.  The model records
  each of them, with its answer, in a trace; the answers come from a \<open>world\<close> whose
  functions see the trace so far, so that an answer may depend on everything that
  happened before.  Of the log lines, the two that report byte counts are recorded; the
  others carry no data of their own and are left out, as is the progress watcher's
  timer.  \<open>TotalRX\<close> of the watcher is what \<open>ZFSRecv\<close> consumed, a \<open>uint64\<close>.
\<close>

datatype event =
    Remote_FilesystemVersionsRequest DatasetPath "error + FilesystemVersion list"
  | Remote_InitialTransferRequest DatasetPath FilesystemVersion "error + stream"
  | Remote_IncrementalTransferRequest DatasetPath FilesystemVersion FilesystemVersion
      "error + stream"
  | Local_ZFSListFilesystemVersions DatasetPath "error + FilesystemVersion list"
  | Local_ZFSRecv DatasetPath stream "string list" "error option" "64 word"
  | Local_ZFSSet DatasetPath string string "error option"
  | Local_ZFSCreatePlaceholderFilesystem DatasetPath "error option"
  | Log_finished_incremental_transfer "64 word"
  | Log_finished_incremental_path "64 word"

record world =
  call_FilesystemVersionsRequest ::
    "event list \<Rightarrow> DatasetPath \<Rightarrow> error + FilesystemVersion list"
  call_InitialTransferRequest ::
    "event list \<Rightarrow> DatasetPath \<Rightarrow> FilesystemVersion \<Rightarrow> error + stream"
  call_IncrementalTransferRequest ::
    "event list \<Rightarrow> DatasetPath \<Rightarrow> FilesystemVersion \<Rightarrow> FilesystemVersion \<Rightarrow> error + stream"
  run_ZFSListFilesystemVersions ::
    "event list \<Rightarrow> DatasetPath \<Rightarrow> error + FilesystemVersion list"
  run_ZFSRecv ::
    "event list \<Rightarrow> DatasetPath \<Rightarrow> stream \<Rightarrow> string list \<Rightarrow> error option \<times> 64 word"
  run_ZFSSet :: "event list \<Rightarrow> DatasetPath \<Rightarrow> string \<Rightarrow> string \<Rightarrow> error option"
  run_ZFSCreatePlaceholderFilesystem :: "event list \<Rightarrow> DatasetPath \<Rightarrow> error option"

definition InitialReplPolicyMostRecent :: string where
  "InitialReplPolicyMostRecent = ''most_recent''"
definition InitialReplPolicyAll :: string where
  "InitialReplPolicyAll = ''all''"

record RemoteLocalMapping =
  Remote :: DatasetPath
  Local :: DatasetPath

record LocalFilesystemState =
  Placeholder :: bool

record DatasetPathVisit =
  Path :: DatasetPath
  FilledIn :: bool

text \<open>What the closure did: it returned a boolean to the walk, or it panicked.\<close>

datatype visit = Visited bool | VisitPanic string

text \<open>
  The loop \<open>for i := 0; i < len(diff.IncrementalPath)-1; i++\<close> over the adjacent pairs
  \<open>from, to := IncrementalPath[i], IncrementalPath[i+1]\<close>.  The argument is the path from
  index \<open>i\<close> on; \<open>pathRx\<close> is the running sum.  The receive of an incremental step gets
  no flags.
\<close>

fun follow_incremental_path ::
  "world \<Rightarrow> RemoteLocalMapping \<Rightarrow> FilesystemVersion list \<Rightarrow> 64 word \<Rightarrow> event list \<Rightarrow>
     visit \<times> event list" where
  "follow_incremental_path W m (from # to # rest) pathRx tr =
     (let answer = call_IncrementalTransferRequest W tr (Remote m) from to;
          tr1 = tr @ [Remote_IncrementalTransferRequest (Remote m) from to answer]
      in case answer of
           Inl err \<Rightarrow> (Visited False, tr1)
         | Inr stream \<Rightarrow>
             (case run_ZFSRecv W tr1 (Local m) stream [] of
                (err, totalRx) \<Rightarrow>
                  (let tr2 = tr1 @ [Local_ZFSRecv (Local m) stream [] err totalRx]
                   in if err \<noteq> None then (Visited False, tr2)
                      else follow_incremental_path W m (to # rest) (pathRx + totalRx)
                             (tr2 @ [Log_finished_incremental_transfer totalRx]))))"
| "follow_incremental_path W m path pathRx tr =
     (Visited True, tr @ [Log_finished_incremental_path pathRx])"

text \<open>
  The second half of the closure, from the consistency check on: what is done with the
  diff.  \<open>placeholder\<close> is \<open>localState.Placeholder\<close>.
\<close>

definition sync_by_diff ::
  "world \<Rightarrow> string \<Rightarrow> RemoteLocalMapping \<Rightarrow> bool \<Rightarrow> FilesystemDiff \<Rightarrow> event list \<Rightarrow>
     visit \<times> event list" where
  "sync_by_diff W policy m placeholder diff tr =
     (if placeholder \<and> Conflict diff \<noteq> ConflictAllRight
      then (VisitPanic ''internal inconsistency: local placeholder implies ConflictAllRight'', tr)
      else
        (case Conflict diff of
           ConflictAllRight \<Rightarrow>
             if policy \<noteq> InitialReplPolicyMostRecent
             then (VisitPanic (''policy '' @ policy @ '' not implemented''), tr)
             else
               (let snapsOnly = filter (\<lambda>v. vType v = Snapshot) (MRCAPathRight diff)
                in if length snapsOnly < 1 then (Visited False, tr)
                   else
                     (let version = snapsOnly ! (length snapsOnly - 1);
                          answer = call_InitialTransferRequest W tr (Remote m) version;
                          tr1 = tr @ [Remote_InitialTransferRequest (Remote m) version answer]
                      in case answer of
                           Inl err \<Rightarrow> (Visited False, tr1)
                         | Inr stream \<Rightarrow>
                             (let recvArgs = [''-u''];
                                  recvArgs = (if placeholder then recvArgs @ [''-F'']
                                              else recvArgs)
                              in case run_ZFSRecv W tr1 (Local m) stream recvArgs of
                                   (err, totalRx) \<Rightarrow>
                                     (let tr2 = tr1 @ [Local_ZFSRecv (Local m) stream recvArgs
                                                         err totalRx]
                                      in if err \<noteq> None then (Visited False, tr2)
                                         else
                                           (let setErr = run_ZFSSet W tr2 (Local m)
                                                           ''readonly'' ''on''
                                            in (Visited True,
                                                tr2 @ [Local_ZFSSet (Local m) ''readonly''
                                                         ''on'' setErr]))))))
         | ConflictIncremental \<Rightarrow>
             if length (IncrementalPath diff) < 2 then (Visited True, tr)
             else follow_incremental_path W m (IncrementalPath diff) 0 tr
         | ConflictNoCommonAncestor \<Rightarrow> (Visited False, tr)
         | ConflictDiverged \<Rightarrow> (Visited False, tr)))"

text \<open>
  The whole closure.  \<open>MakeFilesystemDiff\<close> belongs to package zfs and is a parameter.
  A lookup that misses in \<open>localFilesystemState\<close> gives the zero state, whose
  \<open>Placeholder\<close> is false.
\<close>

definition visit_filesystem ::
  "world \<Rightarrow> string \<Rightarrow> (string \<rightharpoonup> RemoteLocalMapping) \<Rightarrow> (string \<rightharpoonup> LocalFilesystemState) \<Rightarrow>
     (FilesystemVersion list \<Rightarrow> FilesystemVersion list \<Rightarrow> FilesystemDiff) \<Rightarrow>
     DatasetPathVisit \<Rightarrow> event list \<Rightarrow> visit \<times> event list" where
  "visit_filesystem W policy replMapping localFilesystemState MakeFilesystemDiff v tr =
     (if FilledIn v then
        (if localFilesystemState (ToString (Path v)) \<noteq> None then (Visited True, tr)
         else
           (let err = run_ZFSCreatePlaceholderFilesystem W tr (Path v);
                tr1 = tr @ [Local_ZFSCreatePlaceholderFilesystem (Path v) err]
            in if err \<noteq> None then (Visited False, tr1) else (Visited True, tr1)))
      else
        (case replMapping (ToString (Path v)) of
           None \<Rightarrow>
             (VisitPanic ''internal inconsistency: replMapping should contain mapping for any path that was not filled in by WalkTopDown()'', tr)
         | Some m \<Rightarrow>
             (let localExists = (localFilesystemState (ToString (Local m)) \<noteq> None);
                  placeholder = (case localFilesystemState (ToString (Local m)) of
                                   None \<Rightarrow> False | Some st \<Rightarrow> Placeholder st);
                  listed = (if \<not> localExists \<or> placeholder then None
                            else Some (run_ZFSListFilesystemVersions W tr (Local m)));
                  tr1 = (case listed of
                           None \<Rightarrow> tr
                         | Some a \<Rightarrow> tr @ [Local_ZFSListFilesystemVersions (Local m) a])
              in case listed of
                   Some (Inl err) \<Rightarrow> (Visited False, tr1)
                 | _ \<Rightarrow>
                    (let versions = (case listed of Some (Inr vs) \<Rightarrow> vs | _ \<Rightarrow> []);
                         theirs = call_FilesystemVersionsRequest W tr1 (Remote m);
                         tr2 = tr1 @ [Remote_FilesystemVersionsRequest (Remote m) theirs]
                     in case theirs of
                          Inl err \<Rightarrow> (Visited False, tr2)
                        | Inr theirVersions \<Rightarrow>
                            sync_by_diff W policy m placeholder
                              (MakeFilesystemDiff versions theirVersions) tr2))))"

subsection \<open>Reading a trace\<close>

text \<open>
  The transfers in a trace, in order: each transfer request with the filesystem, the
  \<open>from\<close> version (none for an initial transfer) and the \<open>to\<close> version, and each
  receive with its target and flags.
\<close>

datatype transfer =
    Requested DatasetPath "FilesystemVersion option" FilesystemVersion
  | Received DatasetPath "string list"

fun transfers :: "event list \<Rightarrow> transfer list" where
  "transfers [] = []"
| "transfers (Remote_InitialTransferRequest p v a # tr) = Requested p None v # transfers tr"
| "transfers (Remote_IncrementalTransferRequest p f t a # tr) =
     Requested p (Some f) t # transfers tr"
| "transfers (Local_ZFSRecv p s flags err rx # tr) = Received p flags # transfers tr"
| "transfers (e # tr) = transfers tr"

text \<open>The bytes taken in by the receives of a trace that succeeded, added as \<open>uint64\<close>.\<close>

fun received_bytes :: "event list \<Rightarrow> 64 word" where
  "received_bytes [] = 0"
| "received_bytes (Local_ZFSRecv p s flags None rx # tr) = rx + received_bytes tr"
| "received_bytes (e # tr) = received_bytes tr"

text \<open>A world in which no incremental transfer request and no receive fails.\<close>

definition incremental_steps_succeed :: "world \<Rightarrow> bool" where
  "incremental_steps_succeed W \<longleftrightarrow>
     (\<forall>tr p f t. \<exists>stream. call_IncrementalTransferRequest W tr p f t = Inr stream) \<and>
     (\<forall>tr p stream flags. fst (run_ZFSRecv W tr p stream flags) = None)"

text \<open>The adjacent pairs of a list, in order.\<close>

fun adjacent :: "'a list \<Rightarrow> ('a \<times> 'a) list" where
  "adjacent (a # b # r) = (a, b) # adjacent (b # r)"
| "adjacent xs = []"

text \<open>
  The transfers of an incremental path whose steps all go through: for each pair one
  request followed by one receive without flags.
\<close>

definition steps_of ::
  "RemoteLocalMapping \<Rightarrow> (FilesystemVersion \<times> FilesystemVersion) list \<Rightarrow> transfer list" where
  "steps_of m pairs =
     concat (map (\<lambda>(f, t). [Requested (Remote m) (Some f) t, Received (Local m) []]) pairs)"

subsection \<open>A small world for examples\<close>

text \<open>
  Three versions of a remote filesystem, a mapping, and a world in which every request is
  answered with a three-byte stream and every receive takes in its whole stream.
\<close>

definition snap :: "string \<Rightarrow> 64 word \<Rightarrow> FilesystemVersion" where
  "snap n g = \<lparr>vType = Snapshot, Name = n, Guid = g, CreateTXG = g, Creation = 0\<rparr>"

definition bookmark :: "string \<Rightarrow> 64 word \<Rightarrow> FilesystemVersion" where
  "bookmark n g = \<lparr>vType = Bookmark, Name = n, Guid = g, CreateTXG = g, Creation = 0\<rparr>"

definition tank_db :: RemoteLocalMapping where
  "tank_db = \<lparr>Remote = [''tank'', ''db''], Local = [''backup'', ''db'']\<rparr>"

definition calm_world :: world where
  "calm_world =
     \<lparr>call_FilesystemVersionsRequest = (\<lambda>tr p. Inr []),
      call_InitialTransferRequest = (\<lambda>tr p v. Inr [1, 2, 3]),
      call_IncrementalTransferRequest = (\<lambda>tr p f t. Inr [4, 5, 6]),
      run_ZFSListFilesystemVersions = (\<lambda>tr p. Inr []),
      run_ZFSRecv = (\<lambda>tr p stream flags. (None, of_nat (length stream))),
      run_ZFSSet = (\<lambda>tr p k v. None),
      run_ZFSCreatePlaceholderFilesystem = (\<lambda>tr p. None)\<rparr>"

subsection \<open>A small server for examples\<close>




section \<open>Facts about the byte channel and the frame header\<close>

lemma Uint32_PutUint32: "Uint32 (PutUint32 v) = v"
proof (rule bit_word_eqI)
  fix n assume n: "n < LENGTH(32)"
  have "n < 8 \<or> (8 \<le> n \<and> n < 16) \<or> (16 \<le> n \<and> n < 24) \<or> (24 \<le> n \<and> n < 32)"
    using n by auto
  then show "bit (Uint32 (PutUint32 v)) n = bit v n"
    unfolding Uint32_def PutUint32_def
    by (auto simp: bit_simps)
qed

lemma length_PutUint32: "length (PutUint32 v) = 4"
  by (simp add: PutUint32_def)

section \<open>Claims about the frame layer\<close>

text \<open>
  Claim C8.  A frame whose PayloadLength exceeds 4 MiB (4194304 bytes) is refused on both
  sides.  \<open>writeFrame\<close> returns an error for it on every channel.  \<open>readFrame\<close>, on an
  open channel whose next six bytes are a frame header declaring such a length, returns
  an error, and the channel then stands right behind those six bytes: whatever followed
  the header (\<open>rest\<close>) is still unread.
\<close>

theorem C8_frame_size_guard:
  assumes "MAX_PAYLOAD_LENGTH < unat (PayloadLength f)"
    and "\<not> closed l"
    and "rbuf l = b0 # b1 # b2 # b3 # b4 # b5 # rest"
    and "Uint32 [b2, b3, b4, b5] = PayloadLength f"
  shows "fst (writeFrame f w) \<noteq> None \<and>
         readFrame l =
           (\<lparr>Type = b0, NoMoreFrames = (b1 \<noteq> 0), PayloadLength = PayloadLength f\<rparr>,
            Some (Errorf ''frame exceeds max payload length''), l\<lparr>rbuf := rest\<rparr>)"
proof
  show "fst (writeFrame f w) \<noteq> None"
    using assms(1) by (auto simp: writeFrame_def split: prod.splits option.splits)
next
  show "readFrame l =
           (\<lparr>Type = b0, NoMoreFrames = (b1 \<noteq> 0), PayloadLength = PayloadLength f\<rparr>,
            Some (Errorf ''frame exceeds max payload length''), l\<lparr>rbuf := rest\<rparr>)"
    using assms by (simp add: readFrame_def io_ReadFull_def Frame_zero_def Let_def)
qed

theorem C8_frame_size_guard_witness:
  "fst (writeFrame \<lparr>Type = 2, NoMoreFrames = True, PayloadLength = 4194305\<rparr>
          \<lparr>rbuf = [], wbuf = [], closed = False, wbudget = None, close_result = None\<rparr>) \<noteq> None
   \<and> readFrame \<lparr>rbuf = [2, 1, 1, 0, 0x40, 0, 7, 7], wbuf = [], closed = False,
                 wbudget = None, close_result = None\<rparr>
       = (\<lparr>Type = 2, NoMoreFrames = True, PayloadLength = 4194305\<rparr>,
          Some (Errorf ''frame exceeds max payload length''),
          \<lparr>rbuf = [7, 7], wbuf = [], closed = False, wbudget = None, close_result = None\<rparr>)"
  using C8_frame_size_guard [of "\<lparr>Type = 2, NoMoreFrames = True, PayloadLength = 4194305\<rparr>"
          "\<lparr>rbuf = [2, 1, 1, 0, 0x40, 0, 7, 7], wbuf = [], closed = False,
            wbudget = None, close_result = None\<rparr>"
          2 1 1 0 "0x40" 0 "[7, 7]"
          "\<lparr>rbuf = [], wbuf = [], closed = False, wbudget = None, close_result = None\<rparr>"]
  by (simp add: MAX_PAYLOAD_LENGTH_def Uint32_def)

text \<open>
  Claim C10.  \<open>HangUp\<close> leaves the byte channel closed on every channel, also when the
  RST frame could not be written.  Its result is the error of writing the RST frame when
  there is one, and otherwise the result of closing the channel.
\<close>

theorem C10_HangUp_closes:
  "closed (snd (HangUp l)) \<and>
   fst (HangUp l) =
     (case fst (writeFrame (Frame_zero\<lparr>Type := FrameTypeRST\<rparr>) l) of
        Some rstFrameError \<Rightarrow> Some rstFrameError
      | None \<Rightarrow> fst (rwc_Close (snd (writeFrame (Frame_zero\<lparr>Type := FrameTypeRST\<rparr>) l))))"
proof
  show "closed (snd (HangUp l))"
    by (auto simp: HangUp_def rwc_Close_def Let_def split: prod.splits)
next
  show "fst (HangUp l) =
     (case fst (writeFrame (Frame_zero\<lparr>Type := FrameTypeRST\<rparr>) l) of
        Some rstFrameError \<Rightarrow> Some rstFrameError
      | None \<Rightarrow> fst (rwc_Close (snd (writeFrame (Frame_zero\<lparr>Type := FrameTypeRST\<rparr>) l))))"
    by (auto simp: HangUp_def Let_def split: prod.splits option.splits)
qed

text \<open>
  The two cases at concrete channels: a transport that accepts no more bytes (the RST
  write fails, the channel is closed all the same, the write error is returned although
  closing reports its own error), and a healthy transport whose \<open>Close\<close> reports an
  error.
\<close>

theorem C10_HangUp_closes_witness:
  "HangUp \<lparr>rbuf = [], wbuf = [], closed = False, wbudget = Some 0, close_result = Some EOF\<rparr>
     = (Some ErrDevice,
        \<lparr>rbuf = [], wbuf = [], closed = True, wbudget = Some 0, close_result = Some EOF\<rparr>)
   \<and> HangUp \<lparr>rbuf = [], wbuf = [], closed = False, wbudget = None, close_result = Some EOF\<rparr>
     = (Some EOF,
        \<lparr>rbuf = [], wbuf = [0xff, 0, 0, 0, 0, 0], closed = True, wbudget = None,
          close_result = Some EOF\<rparr>)"
  using C10_HangUp_closes
          [of "\<lparr>rbuf = [], wbuf = [], closed = False, wbudget = Some 0, close_result = Some EOF\<rparr>"]
  by (simp add: HangUp_def writeFrame_def binary_Write_def rwc_Write_def rwc_Close_def
        Frame_zero_def FrameTypeRST_def PutBool_def PutUint32_def MAX_PAYLOAD_LENGTH_def)

section \<open>The framing round trip\<close>

lemma length_frame_header [simp]: "length (frame_header T nm n) = 6"
  by (simp add: frame_header_def PutBool_def PutUint32_def)

lemma unat_of_nat_payload: "n \<le> MAX_PAYLOAD_LENGTH \<Longrightarrow> unat (of_nat n :: 32 word) = n"
  by (simp add: MAX_PAYLOAD_LENGTH_def unat_of_nat)

lemma uint_of_nat_payload: "n \<le> MAX_PAYLOAD_LENGTH \<Longrightarrow> uint (of_nat n :: 32 word) = int n"
  by (simp only: uint_nat unat_of_nat_payload)

lemma writeFrame_good:
  assumes "good l" "n \<le> MAX_PAYLOAD_LENGTH"
  shows "writeFrame \<lparr>Type = T, NoMoreFrames = nm, PayloadLength = of_nat n\<rparr> l
           = (None, l\<lparr>wbuf := wbuf l @ frame_header T nm n\<rparr>)"
  using assms
  by (simp add: writeFrame_def binary_Write_def rwc_Write_def good_def frame_header_def
        unat_of_nat_payload)

lemma flush_good:
  assumes "good l" "length (w_buffer w) \<le> MAX_PAYLOAD_LENGTH"
  shows "fbw_flush nm w l
           = (None, w\<lparr>w_buffer := []\<rparr>,
              l\<lparr>wbuf := wbuf l @ frame_header (w_frameType w) nm (length (w_buffer w)) @ w_buffer w\<rparr>)"
  using assms writeFrame_good [OF assms(1,2), of "w_frameType w" nm]
  by (simp add: fbw_flush_def Buffer_WriteTo_def rwc_Write_def good_def Let_def)

lemma readFrame_good:
  assumes "\<not> closed l" "rbuf l = frame_header T nm n @ rest" "n \<le> MAX_PAYLOAD_LENGTH"
  shows "readFrame l = (\<lparr>Type = T, NoMoreFrames = nm, PayloadLength = of_nat n\<rparr>, None,
                        l\<lparr>rbuf := rest\<rparr>)"
  using assms
  by (simp add: readFrame_def io_ReadFull_def frame_header_def PutBool_def Frame_zero_def Let_def
        unat_of_nat_payload length_PutUint32 Uint32_PutUint32)

lemma good_wbuf [simp]: "good (l\<lparr>wbuf := x\<rparr>) = good l"
  by (simp add: good_def)

lemma writeUntilFrameFull_step:
  assumes l: "good l"
    and P: "w_payloadLength w = int P" "P \<le> MAX_PAYLOAD_LENGTH"
    and buf: "length (w_buffer w) < P"
    and b: "b \<noteq> []"
    and bl: "w_bytesLeftToLimit w < 0 \<or> int (length b) \<le> w_bytesLeftToLimit w"
    and mw: "mw = min (length b) (P - length (w_buffer w))"
  shows "writeUntilFrameFull b w l =
           (if w_bytesLeftToLimit w = int mw then
              (mw, None, w\<lparr>w_buffer := [], w_bytesLeftToLimit := 0\<rparr>,
               l\<lparr>wbuf := wbuf l @ frame_header (w_frameType w) True (length (w_buffer w) + mw)
                                 @ w_buffer w @ take mw b\<rparr>)
            else if length (w_buffer w) + mw = P then
              (mw, None, w\<lparr>w_buffer := [], w_bytesLeftToLimit := w_bytesLeftToLimit w - int mw\<rparr>,
               l\<lparr>wbuf := wbuf l @ frame_header (w_frameType w) False P
                                 @ w_buffer w @ take mw b\<rparr>)
            else
              (mw, None, w\<lparr>w_buffer := w_buffer w @ take mw b,
                           w_bytesLeftToLimit := w_bytesLeftToLimit w - int mw\<rparr>, l))"
proof -
  have mw1: "0 < mw" "mw \<le> length b" "length (w_buffer w) + mw \<le> P"
    using b buf mw by auto
  have nz: "w_bytesLeftToLimit w \<noteq> 0" using bl b by auto
  let ?maxwrite0 = "int (length b)"
  let ?rem = "w_payloadLength w - int (length (w_buffer w))"
  let ?maxwrite1 = "if ?maxwrite0 > ?rem then ?rem else ?maxwrite0"
  have m1: "?maxwrite1 = int mw" using mw P buf by auto
  have m2: "(if w_bytesLeftToLimit w > 0 \<and> int mw > w_bytesLeftToLimit w
             then w_bytesLeftToLimit w else int mw) = int mw"
    using bl mw1 by auto
  define w1 where "w1 = w\<lparr>w_buffer := w_buffer w @ take mw b,
                         w_bytesLeftToLimit := w_bytesLeftToLimit w - int mw\<rparr>"
  have len1: "length (w_buffer w1) = length (w_buffer w) + mw"
    using mw1 by (simp add: w1_def)
  have le1: "length (w_buffer w1) \<le> MAX_PAYLOAD_LENGTH"
    using len1 mw1 P by simp
  have unfold: "writeUntilFrameFull b w l =
      (if w_bytesLeftToLimit w1 = 0 then
         (case fbw_flush True w1 l of (err, w2, l2) \<Rightarrow> (mw, err, w2, l2))
       else if int (length (w_buffer w1)) = w_payloadLength w1 then
         (case fbw_flush False w1 l of (err, w2, l2) \<Rightarrow> (mw, err, w2, l2))
       else (mw, None, w1, l))"
    unfolding writeUntilFrameFull_def Let_def
    apply (simp only: m1 m2)
    using b nz mw1 apply (simp add: w1_def)
    done
  show ?thesis
    unfolding unfold flush_good [OF l le1]
    using len1 P mw1 by (auto simp: w1_def)
qed

lemma enc_Cons: "cs \<noteq> [] \<Longrightarrow> enc T (c # cs) = frame_header T False (length c) @ c @ enc T cs"
  by (cases cs) simp_all

lemma Write_loop_done: "fbw_Write_loop (Suc fuel) b (length b) w l = Some (length b, None, w, l)"
  by simp

lemma Write_loop_good:
  assumes "good l"
    and "w_payloadLength w = int P" and "P \<le> MAX_PAYLOAD_LENGTH"
    and "length (w_buffer w) < P"
    and "n \<le> length b"
    and "w_bytesLeftToLimit w < 0 \<or> int (length b - n) \<le> w_bytesLeftToLimit w"
    and "length b - n < fuel"
  shows "\<exists>cs buf' X.
           fbw_Write_loop fuel b n w l =
             Some (length b, None,
                   w\<lparr>w_buffer := buf',
                     w_bytesLeftToLimit := w_bytesLeftToLimit w - int (length b - n)\<rparr>,
                   l\<lparr>wbuf := wbuf l @ X\<rparr>) \<and>
           (w_bytesLeftToLimit w = int (length b - n) \<and> n < length b \<longrightarrow>
              buf' = [] \<and> X = enc (w_frameType w) cs \<and> cs \<noteq> [] \<and>
              concat cs = w_buffer w @ drop n b) \<and>
           (\<not> (w_bytesLeftToLimit w = int (length b - n) \<and> n < length b) \<longrightarrow>
              X = encF (w_frameType w) cs \<and> concat cs @ buf' = w_buffer w @ drop n b \<and>
              length buf' < P) \<and>
           (\<forall>c \<in> set cs. c \<noteq> [] \<and> length c \<le> P)"
  using assms
proof (induction fuel arbitrary: n w l)
  case 0
  then show ?case by simp
next
  case (Suc fuel)
  show ?case
  proof (cases "n < length b")
    case False
    then have n: "n = length b" using Suc.prems(5) by simp
    have "fbw_Write_loop (Suc fuel) b n w l =
            Some (length b, None,
                  w\<lparr>w_buffer := w_buffer w,
                    w_bytesLeftToLimit := w_bytesLeftToLimit w - int (length b - n)\<rparr>,
                  l\<lparr>wbuf := wbuf l @ []\<rparr>)"
      using n by simp
    then show ?thesis
      apply -
      apply (rule exI [of _ "[]::byte list list"], rule exI [of _ "w_buffer w"], rule exI [of _ "[]::byte list"])
      using n Suc.prems(4) apply (simp del: fbw_Write_loop.simps)
      done
  next
    case True
    define b' where "b' = drop n b"
    define mw where "mw = min (length b') (P - length (w_buffer w))"
    have b'ne: "b' \<noteq> []" and lb': "length b' = length b - n"
      using True by (simp_all add: b'_def)
    have mw1: "0 < mw" "mw \<le> length b'" "length (w_buffer w) + mw \<le> P"
      using b'ne Suc.prems(4) by (auto simp: mw_def)
    have bl: "w_bytesLeftToLimit w < 0 \<or> int (length b') \<le> w_bytesLeftToLimit w"
      using Suc.prems(6) lb' by simp
    note step = writeUntilFrameFull_step [OF Suc.prems(1) Suc.prems(2) Suc.prems(3)
                  Suc.prems(4) b'ne bl mw_def]
    have fuel: "0 < fuel" using Suc.prems(7) True by simp
    then obtain fuel' where fuel': "fuel = Suc fuel'" by (cases fuel) auto
    have td: "take mw b' @ drop (n + mw) b = drop n b"
      by (metis add.commute append_take_drop_id b'_def drop_drop)
    consider (A) "w_bytesLeftToLimit w = int mw"
      | (B) "w_bytesLeftToLimit w \<noteq> int mw" "length (w_buffer w) + mw = P"
      | (C) "w_bytesLeftToLimit w \<noteq> int mw" "length (w_buffer w) + mw \<noteq> P"
      by blast
    then show ?thesis
    proof cases
      case A
      then have all: "mw = length b'" using bl mw1 by auto
      let ?c = "w_buffer w @ b'"
      have "fbw_Write_loop (Suc fuel) b n w l =
              Some (length b, None,
                    w\<lparr>w_buffer := [],
                      w_bytesLeftToLimit := w_bytesLeftToLimit w - int (length b - n)\<rparr>,
                    l\<lparr>wbuf := wbuf l @ enc (w_frameType w) [?c]\<rparr>)"
        using True step A all lb' fuel' by (simp add: b'_def)
      moreover have "w_bytesLeftToLimit w = int (length b - n)" using A all lb' by simp
      moreover have "?c \<noteq> []" "length ?c \<le> P" using b'ne mw1 all by auto
      ultimately show ?thesis
        apply -
        apply (rule exI [of _ "[?c]"], rule exI [of _ "[]::byte list"], rule exI [of _ "enc (w_frameType w) [?c]"])
        using True apply (simp del: fbw_Write_loop.simps add: b'_def)
        done
    next
      case B
      let ?c = "w_buffer w @ take mw b'"
      let ?w' = "w\<lparr>w_buffer := [], w_bytesLeftToLimit := w_bytesLeftToLimit w - int mw\<rparr>"
      let ?l' = "l\<lparr>wbuf := wbuf l @ frame_header (w_frameType w) False P @ ?c\<rparr>"
      have rec: "fbw_Write_loop (Suc fuel) b n w l = fbw_Write_loop fuel b (n + mw) ?w' ?l'"
        using True step B by (simp add: b'_def)
      have p5: "n + mw \<le> length b" using mw1 lb' True by simp
      have p6: "w_bytesLeftToLimit ?w' < 0 \<or> int (length b - (n + mw)) \<le> w_bytesLeftToLimit ?w'"
        using bl mw1 lb' by auto
      have p7: "length b - (n + mw) < fuel" using Suc.prems(7) mw1 lb' True by arith
      have p4: "length (w_buffer ?w') < P" using Suc.prems(4) by simp
      from Suc.IH [of ?l' ?w' "n + mw"] Suc.prems(1,2,3) p4 p5 p6 p7
      obtain cs buf' X where
        r: "fbw_Write_loop fuel b (n + mw) ?w' ?l' =
              Some (length b, None,
                    ?w'\<lparr>w_buffer := buf',
                       w_bytesLeftToLimit := w_bytesLeftToLimit ?w' - int (length b - (n + mw))\<rparr>,
                    ?l'\<lparr>wbuf := wbuf ?l' @ X\<rparr>)"
        and ex: "w_bytesLeftToLimit ?w' = int (length b - (n + mw)) \<and> n + mw < length b \<longrightarrow>
              buf' = [] \<and> X = enc (w_frameType ?w') cs \<and> cs \<noteq> [] \<and>
              concat cs = w_buffer ?w' @ drop (n + mw) b"
        and nex: "\<not> (w_bytesLeftToLimit ?w' = int (length b - (n + mw)) \<and> n + mw < length b) \<longrightarrow>
              X = encF (w_frameType ?w') cs \<and> concat cs @ buf' = w_buffer ?w' @ drop (n + mw) b \<and>
              length buf' < P"
        and all: "\<forall>c \<in> set cs. c \<noteq> [] \<and> length c \<le> P"
        by (auto simp: good_def)
      have iff: "(w_bytesLeftToLimit ?w' = int (length b - (n + mw)) \<and> n + mw < length b)
                 \<longleftrightarrow> (w_bytesLeftToLimit w = int (length b - n) \<and> n < length b)"
        using B(1) mw1 lb' True by auto
      have lc: "length ?c = P" "?c \<noteq> []" using B(2) mw1 by auto
      have res: "fbw_Write_loop (Suc fuel) b n w l =
              Some (length b, None,
                    w\<lparr>w_buffer := buf',
                      w_bytesLeftToLimit := w_bytesLeftToLimit w - int (length b - n)\<rparr>,
                    l\<lparr>wbuf := wbuf l @ (frame_header (w_frameType w) False P @ ?c @ X)\<rparr>)"
        using rec r mw1 lb' True by simp
      have body: "fbw_Write_loop (Suc fuel) b n w l =
             Some (length b, None,
                   w\<lparr>w_buffer := buf',
                     w_bytesLeftToLimit := w_bytesLeftToLimit w - int (length b - n)\<rparr>,
                   l\<lparr>wbuf := wbuf l @ (frame_header (w_frameType w) False P @ ?c @ X)\<rparr>) \<and>
           (w_bytesLeftToLimit w = int (length b - n) \<and> n < length b \<longrightarrow>
              buf' = [] \<and>
              frame_header (w_frameType w) False P @ ?c @ X = enc (w_frameType w) (?c # cs) \<and>
              ?c # cs \<noteq> [] \<and>
              concat (?c # cs) = w_buffer w @ drop n b) \<and>
           (\<not> (w_bytesLeftToLimit w = int (length b - n) \<and> n < length b) \<longrightarrow>
              frame_header (w_frameType w) False P @ ?c @ X = encF (w_frameType w) (?c # cs) \<and>
              concat (?c # cs) @ buf' = w_buffer w @ drop n b \<and>
              length buf' < P) \<and>
           (\<forall>c \<in> set (?c # cs). c \<noteq> [] \<and> length c \<le> P)"
      proof (intro conjI impI)
        show "fbw_Write_loop (Suc fuel) b n w l =
              Some (length b, None,
                    w\<lparr>w_buffer := buf',
                      w_bytesLeftToLimit := w_bytesLeftToLimit w - int (length b - n)\<rparr>,
                    l\<lparr>wbuf := wbuf l @ (frame_header (w_frameType w) False P @ ?c @ X)\<rparr>)"
          by (rule res)
      next
        assume e: "w_bytesLeftToLimit w = int (length b - n) \<and> n < length b"
        with ex iff show "buf' = []" by blast
        from e iff have e': "w_bytesLeftToLimit ?w' = int (length b - (n + mw)) \<and> n + mw < length b"
          by blast
        from ex e' have x: "X = enc (w_frameType w) cs" "cs \<noteq> []"
          "concat cs = drop (n + mw) b" by simp_all
        show "frame_header (w_frameType w) False P @ ?c @ X = enc (w_frameType w) (?c # cs)"
          using x lc by (simp add: enc_Cons)
        show "?c # cs \<noteq> []" by simp
        show "concat (?c # cs) = w_buffer w @ drop n b"
          using x td by simp
      next
        assume e: "\<not> (w_bytesLeftToLimit w = int (length b - n) \<and> n < length b)"
        from e iff have e': "\<not> (w_bytesLeftToLimit ?w' = int (length b - (n + mw)) \<and> n + mw < length b)"
          by blast
        from nex e' have x: "X = encF (w_frameType w) cs"
          "concat cs @ buf' = drop (n + mw) b" "length buf' < P" by simp_all
        show "frame_header (w_frameType w) False P @ ?c @ X = encF (w_frameType w) (?c # cs)"
          using x lc by simp
        show "concat (?c # cs) @ buf' = w_buffer w @ drop n b"
          using x td by simp
        show "length buf' < P" by (rule x)
      next
        show "\<forall>c\<in>set (?c # cs). c \<noteq> [] \<and> length c \<le> P"
          using all lc by simp
      qed
      show ?thesis
        apply (rule exI [of _ "?c # cs"], rule exI [of _ buf'])
        apply (rule exI [of _ "frame_header (w_frameType w) False P @ ?c @ X"])
        apply (rule body)
        done
    next
      case C
      then have all: "mw = length b'" using mw1 Suc.prems(4) by (auto simp: mw_def)
      have lt: "length (w_buffer w) + mw < P" using C mw1 by simp
      have "fbw_Write_loop (Suc fuel) b n w l =
              Some (length b, None,
                    w\<lparr>w_buffer := w_buffer w @ b',
                      w_bytesLeftToLimit := w_bytesLeftToLimit w - int (length b - n)\<rparr>,
                    l\<lparr>wbuf := wbuf l @ []\<rparr>)"
        using True step C all lb' fuel' by (simp add: b'_def)
      moreover have "\<not> (w_bytesLeftToLimit w = int (length b - n) \<and> n < length b)"
        using C(1) all lb' by simp
      ultimately show ?thesis
        apply -
        apply (rule exI [of _ "[]::byte list list"], rule exI [of _ "w_buffer w @ b'"], rule exI [of _ "[]::byte list"])
        using lt all apply (simp del: fbw_Write_loop.simps add: b'_def)
        done
    qed
  qed
qed

lemma of_nat_payload_eq_0:
  assumes "n \<le> MAX_PAYLOAD_LENGTH"
  shows "(of_nat n :: 32 word) = 0 \<longleftrightarrow> n = 0"
proof
  assume z: "(of_nat n :: 32 word) = 0"
  have "unat (of_nat n :: 32 word) = n" using assms by (rule unat_of_nat_payload)
  then show "n = 0" using z by simp
next
  assume "n = 0"
  then show "(of_nat n :: 32 word) = 0" by simp
qed

lemma ReadAll_EOF_flag:
  "PayloadLength (r_f r) = 0 \<Longrightarrow> NoMoreFrames (r_f r) \<Longrightarrow>
   fbr_ReadAll (Suc fuel) k r l = Some ([], EOF, r, l)"
  by (simp add: fbr_Read_def)

lemma ReadAll_EOF_limit:
  "r_bytesLeftToLimit r = 0 \<Longrightarrow> fbr_ReadAll (Suc fuel) k r l = Some ([], EOF, r, l)"
  by (simp add: fbr_Read_def)

lemma readPayload_inside:
  assumes "0 < k" "\<not> closed l" "rbuf l = c @ tail" "c \<noteq> []"
    and "length c \<le> MAX_PAYLOAD_LENGTH"
    and "r_f r = \<lparr>Type = T', NoMoreFrames = nm, PayloadLength = of_nat (length c)\<rparr>"
    and "r_bytesLeftToLimit r < 0 \<or> int (length c) \<le> r_bytesLeftToLimit r"
    and "j = min k (length c)"
  shows "fbr_readPayload k r l =
           (take j c, None,
            r\<lparr>r_f := \<lparr>Type = T', NoMoreFrames = nm, PayloadLength = of_nat (length c - j)\<rparr>,
              r_bytesLeftToLimit := r_bytesLeftToLimit r - int j\<rparr>,
            l\<lparr>rbuf := drop j c @ tail\<rparr>)"
proof -
  have j: "0 < j" "j \<le> length c" using assms by auto
  let ?m0 = "int k"
  have u: "uint (PayloadLength (r_f r)) = int (length c)"
    using assms(5,6) by (simp add: uint_of_nat_payload)
  have m1: "(if ?m0 > uint (PayloadLength (r_f r)) then uint (PayloadLength (r_f r)) else ?m0) = int j"
    unfolding u using assms(8) by auto
  have m2: "(if r_bytesLeftToLimit r > 0 \<and> int j > r_bytesLeftToLimit r
             then r_bytesLeftToLimit r else int j) = int j"
    using assms(7) j by auto
  have rd: "rwc_Read j l = (take j c, None, l\<lparr>rbuf := drop j c @ tail\<rparr>)"
    using assms(2,3,4) j by (simp add: rwc_Read_def)
  have sub: "(of_nat (length c) :: 32 word) - of_nat (length (take j c)) = of_nat (length c - j)"
    using j by (simp add: min_absorb2)
  show ?thesis
    unfolding fbr_readPayload_def Let_def
    apply (simp only: m1 m2 nat_int rd prod.case)
    using assms(6) sub j apply (simp add: min_absorb2)
    done
qed

lemma Read_inside:
  assumes "0 < k" "\<not> closed l" "rbuf l = c @ tail" "c \<noteq> []"
    and "length c \<le> MAX_PAYLOAD_LENGTH"
    and "r_f r = \<lparr>Type = T', NoMoreFrames = nm, PayloadLength = of_nat (length c)\<rparr>"
    and "r_bytesLeftToLimit r < 0 \<or> int (length c) \<le> r_bytesLeftToLimit r"
  shows "fbr_Read k r l = fbr_readPayload k r l"
proof -
  have "r_bytesLeftToLimit r \<noteq> 0" using assms(4,7) by auto
  moreover have "PayloadLength (r_f r) \<noteq> 0"
    using assms(4,5,6) by (simp add: of_nat_payload_eq_0)
  ultimately show ?thesis by (simp add: fbr_Read_def)
qed

lemma drain:
  assumes "0 < k" "\<not> closed l" "rbuf l = c @ tail"
    and "length c \<le> MAX_PAYLOAD_LENGTH"
    and "r_f r = \<lparr>Type = T', NoMoreFrames = nm, PayloadLength = of_nat (length c)\<rparr>"
    and "r_bytesLeftToLimit r < 0 \<or> int (length c) \<le> r_bytesLeftToLimit r"
    and cont: "\<And>fuel. m < fuel \<Longrightarrow>
            fbr_ReadAll fuel k
              (r\<lparr>r_f := \<lparr>Type = T', NoMoreFrames = nm, PayloadLength = 0\<rparr>,
                 r_bytesLeftToLimit := r_bytesLeftToLimit r - int (length c)\<rparr>)
              (l\<lparr>rbuf := tail\<rparr>) = Some (out, e, rf, lf)"
    and "m + length c < fuel"
  shows "fbr_ReadAll fuel k r l = Some (c @ out, e, rf, lf)"
  using assms
proof (induction "length c" arbitrary: c r l fuel rule: less_induct)
  case less
  show ?case
  proof (cases "c = []")
    case True
    have "r\<lparr>r_f := \<lparr>Type = T', NoMoreFrames = nm, PayloadLength = 0\<rparr>,
                 r_bytesLeftToLimit := r_bytesLeftToLimit r - int (length c)\<rparr> = r"
      using True less.prems(5) by simp
    moreover have "l\<lparr>rbuf := tail\<rparr> = l" using True less.prems(3) by simp
    ultimately show ?thesis using less.prems(7) [of fuel] less.prems(8) True by simp
  next
    case False
    define j where "j = min k (length c)"
    have j: "0 < j" "j \<le> length c" using False less.prems(1) by (auto simp: j_def)
    obtain fuel' where fuel: "fuel = Suc fuel'" using less.prems(8) by (cases fuel) auto
    let ?r1 = "r\<lparr>r_f := \<lparr>Type = T', NoMoreFrames = nm, PayloadLength = of_nat (length c - j)\<rparr>,
              r_bytesLeftToLimit := r_bytesLeftToLimit r - int j\<rparr>"
    let ?l1 = "l\<lparr>rbuf := drop j c @ tail\<rparr>"
    have rd: "fbr_Read k r l = (take j c, None, ?r1, ?l1)"
      using Read_inside [OF less.prems(1,2,3) False less.prems(4,5,6)]
            readPayload_inside [OF less.prems(1,2,3) False less.prems(4,5,6) j_def]
      by simp
    have ih: "fbr_ReadAll fuel' k ?r1 ?l1 = Some (drop j c @ out, e, rf, lf)"
    proof (rule less.hyps [of "drop j c" ?l1 ?r1 fuel'])
      show "length (drop j c) < length c" using j False by simp
      show "0 < k" by (rule less.prems(1))
      show "\<not> closed ?l1" using less.prems(2) by simp
      show "rbuf ?l1 = drop j c @ tail" by simp
      show "length (drop j c) \<le> MAX_PAYLOAD_LENGTH" using less.prems(4) by simp
      show "r_f ?r1 = \<lparr>Type = T', NoMoreFrames = nm, PayloadLength = of_nat (length (drop j c))\<rparr>"
        by simp
      show "r_bytesLeftToLimit ?r1 < 0 \<or> int (length (drop j c)) \<le> r_bytesLeftToLimit ?r1"
        using less.prems(6) j by auto
      show "m + length (drop j c) < fuel'" using less.prems(8) fuel j by simp
      fix fu assume "m < fu"
      then have "fbr_ReadAll fu k
              (r\<lparr>r_f := \<lparr>Type = T', NoMoreFrames = nm, PayloadLength = 0\<rparr>,
                 r_bytesLeftToLimit := r_bytesLeftToLimit r - int (length c)\<rparr>)
              (l\<lparr>rbuf := tail\<rparr>) = Some (out, e, rf, lf)"
        by (rule less.prems(7))
      moreover have "?r1\<lparr>r_f := \<lparr>Type = T', NoMoreFrames = nm, PayloadLength = 0\<rparr>,
                 r_bytesLeftToLimit := r_bytesLeftToLimit ?r1 - int (length (drop j c))\<rparr>
            = r\<lparr>r_f := \<lparr>Type = T', NoMoreFrames = nm, PayloadLength = 0\<rparr>,
                 r_bytesLeftToLimit := r_bytesLeftToLimit r - int (length c)\<rparr>"
        using j by simp
      moreover have "?l1\<lparr>rbuf := tail\<rparr> = l\<lparr>rbuf := tail\<rparr>" by simp
      ultimately show "fbr_ReadAll fu k
              (?r1\<lparr>r_f := \<lparr>Type = T', NoMoreFrames = nm, PayloadLength = 0\<rparr>,
                 r_bytesLeftToLimit := r_bytesLeftToLimit ?r1 - int (length (drop j c))\<rparr>)
              (?l1\<lparr>rbuf := tail\<rparr>) = Some (out, e, rf, lf)"
        by simp
    qed
    show ?thesis
      unfolding fuel using rd ih by simp
  qed
qed

lemma Read_boundary:
  assumes "PayloadLength (r_f r) = 0" "\<not> NoMoreFrames (r_f r)" "r_bytesLeftToLimit r \<noteq> 0"
    and "\<not> closed l" "rbuf l = frame_header T nm n @ tail" "n \<le> MAX_PAYLOAD_LENGTH"
    and "r_frameType r = T"
  shows "fbr_Read k r l =
           fbr_readPayload k (r\<lparr>r_f := \<lparr>Type = T, NoMoreFrames = nm, PayloadLength = of_nat n\<rparr>\<rparr>)
             (l\<lparr>rbuf := tail\<rparr>)"
  using assms readFrame_good [OF assms(4,5,6)]
  by (simp add: fbr_Read_def Let_def)

lemma readPayload_empty:
  assumes "\<not> closed l" "PayloadLength (r_f r) = 0"
  shows "fbr_readPayload k r l = ([], None, r, l)"
  using assms by (simp add: fbr_readPayload_def rwc_Read_def Let_def)

lemma ReadAll_frame:
  assumes k: "0 < k" and l: "\<not> closed l"
    and b: "PayloadLength (r_f r) = 0" "\<not> NoMoreFrames (r_f r)" "r_frameType r = T"
    and bl0: "r_bytesLeftToLimit r \<noteq> 0"
    and bl: "r_bytesLeftToLimit r < 0 \<or> int (length c) \<le> r_bytesLeftToLimit r"
    and rb: "rbuf l = frame_header T nm (length c) @ c @ tail"
    and c: "length c \<le> MAX_PAYLOAD_LENGTH"
    and cont: "\<And>fuel. m < fuel \<Longrightarrow>
            fbr_ReadAll fuel k
              (r\<lparr>r_f := \<lparr>Type = T, NoMoreFrames = nm, PayloadLength = 0\<rparr>,
                 r_bytesLeftToLimit := r_bytesLeftToLimit r - int (length c)\<rparr>)
              (l\<lparr>rbuf := tail\<rparr>) = Some (out, e, rf, lf)"
    and fuel: "m + length c + 1 < fuel"
  shows "fbr_ReadAll fuel k r l = Some (c @ out, e, rf, lf)"
proof -
  let ?r1 = "r\<lparr>r_f := \<lparr>Type = T, NoMoreFrames = nm, PayloadLength = of_nat (length c)\<rparr>\<rparr>"
  let ?l1 = "l\<lparr>rbuf := c @ tail\<rparr>"
  obtain f where f: "fuel = Suc f" using fuel by (cases fuel) auto
  have rd: "fbr_Read k r l = fbr_readPayload k ?r1 ?l1"
    by (rule Read_boundary [OF b(1,2) bl0 l rb c b(3)])
  show ?thesis
  proof (cases "c = []")
    case True
    have "fbr_readPayload k ?r1 ?l1 = ([], None, ?r1, ?l1)"
      using l True by (simp add: readPayload_empty)
    then have "fbr_ReadAll fuel k r l =
                 (case fbr_ReadAll f k ?r1 ?l1 of None \<Rightarrow> None
                  | Some (bs', e, r'', l'') \<Rightarrow> Some ([] @ bs', e, r'', l''))"
      using rd f by simp
    moreover have "fbr_ReadAll f k ?r1 ?l1 = Some (out, e, rf, lf)"
      using cont [of f] fuel f True by simp
    ultimately show ?thesis using True by simp
  next
    case False
    have ins: "fbr_Read k ?r1 ?l1 = fbr_readPayload k ?r1 ?l1"
      by (rule Read_inside [OF k, of ?l1 c tail ?r1 T nm]) (use l False c bl in simp_all)
    have same: "fbr_ReadAll fuel k r l = fbr_ReadAll fuel k ?r1 ?l1"
      using rd ins f by simp
    have "fbr_ReadAll fuel k ?r1 ?l1 = Some (c @ out, e, rf, lf)"
    proof (rule drain [OF k, of ?l1 c tail ?r1 T nm m out e rf lf fuel])
      show "\<not> closed ?l1" using l by simp
      show "rbuf ?l1 = c @ tail" by simp
      show "length c \<le> MAX_PAYLOAD_LENGTH" by (rule c)
      show "r_f ?r1 = \<lparr>Type = T, NoMoreFrames = nm, PayloadLength = of_nat (length c)\<rparr>" by simp
      show "r_bytesLeftToLimit ?r1 < 0 \<or> int (length c) \<le> r_bytesLeftToLimit ?r1"
        using bl by simp
      show "m + length c < fuel" using fuel by simp
      fix fu assume "m < fu"
      then show "fbr_ReadAll fu k
              (?r1\<lparr>r_f := \<lparr>Type = T, NoMoreFrames = nm, PayloadLength = 0\<rparr>,
                 r_bytesLeftToLimit := r_bytesLeftToLimit ?r1 - int (length c)\<rparr>)
              (?l1\<lparr>rbuf := tail\<rparr>) = Some (out, e, rf, lf)"
        using cont [of fu] by simp
    qed
    then show ?thesis using same by simp
  qed
qed

lemma length_enc: "length (enc T cs) = length (concat cs) + 6 * length cs"
  by (induction T cs rule: enc.induct) simp_all

lemma ReadAll_frames:
  assumes "0 < k" "\<not> closed l" "cs \<noteq> []" "\<forall>c \<in> set cs. length c \<le> MAX_PAYLOAD_LENGTH"
    and "PayloadLength (r_f r) = 0" "\<not> NoMoreFrames (r_f r)" "r_frameType r = T"
    and "rbuf l = enc T cs @ rest"
    and "r_bytesLeftToLimit r < 0 \<or> int (length (concat cs)) \<le> r_bytesLeftToLimit r"
  shows "\<exists>rf lf. (\<forall>fuel. length (enc T cs) < fuel \<longrightarrow>
                      fbr_ReadAll fuel k r l = Some (concat cs, EOF, rf, lf)) \<and>
                 (r_bytesLeftToLimit r < 0 \<or> int (length (concat cs)) < r_bytesLeftToLimit r
                    \<longrightarrow> rbuf lf = rest)"
  using assms
proof (induction cs arbitrary: r l)
  case Nil
  then show ?case by simp
next
  case (Cons c cs)
  show ?case
  proof (cases "r_bytesLeftToLimit r = 0")
    case True
    have "length (concat (c # cs)) = 0" using Cons.prems(9) True by linarith
    then have e: "concat (c # cs) = []" by (simp only: length_0_conv)
    have "\<forall>fuel. length (enc T (c # cs)) < fuel \<longrightarrow>
             fbr_ReadAll fuel k r l = Some (concat (c # cs), EOF, r, l)"
    proof (intro allI impI)
      fix fuel assume "length (enc T (c # cs)) < fuel"
      then obtain f where "fuel = Suc f" by (cases fuel) auto
      then show "fbr_ReadAll fuel k r l = Some (concat (c # cs), EOF, r, l)"
        using ReadAll_EOF_limit [OF True] e by simp
    qed
    then show ?thesis using True e by auto
  next
    case False
    have cl: "length c \<le> MAX_PAYLOAD_LENGTH" using Cons.prems(4) by simp
    have blc: "r_bytesLeftToLimit r < 0 \<or> int (length c) \<le> r_bytesLeftToLimit r"
      using Cons.prems(9) by auto
    show ?thesis
    proof (cases "cs = []")
      case True
      let ?rd = "r\<lparr>r_f := \<lparr>Type = T, NoMoreFrames = True, PayloadLength = 0\<rparr>,
                 r_bytesLeftToLimit := r_bytesLeftToLimit r - int (length c)\<rparr>"
      let ?ld = "l\<lparr>rbuf := rest\<rparr>"
      have rb: "rbuf l = frame_header T True (length c) @ c @ rest"
        using Cons.prems(8) True by simp
      have cont: "\<And>fuel. 0 < fuel \<Longrightarrow> fbr_ReadAll fuel k ?rd ?ld = Some ([], EOF, ?rd, ?ld)"
      proof -
        fix fuel :: nat assume "0 < fuel"
        then obtain f where "fuel = Suc f" by (cases fuel) auto
        then show "fbr_ReadAll fuel k ?rd ?ld = Some ([], EOF, ?rd, ?ld)"
          using ReadAll_EOF_flag [of ?rd f k ?ld] by simp
      qed
      have "\<forall>fuel. length (enc T (c # cs)) < fuel \<longrightarrow>
             fbr_ReadAll fuel k r l = Some (concat (c # cs), EOF, ?rd, ?ld)"
      proof (intro allI impI)
        fix fuel assume "length (enc T (c # cs)) < fuel"
        then have fu: "0 + length c + 1 < fuel" using True by simp
        show "fbr_ReadAll fuel k r l = Some (concat (c # cs), EOF, ?rd, ?ld)"
          using ReadAll_frame [OF Cons.prems(1,2,5,6,7) False blc rb cl cont fu] True by simp
      qed
      then show ?thesis by (intro exI [of _ ?rd] exI [of _ ?ld]) simp
    next
      case ne: False
      let ?rd = "r\<lparr>r_f := \<lparr>Type = T, NoMoreFrames = False, PayloadLength = 0\<rparr>,
                 r_bytesLeftToLimit := r_bytesLeftToLimit r - int (length c)\<rparr>"
      let ?ld = "l\<lparr>rbuf := enc T cs @ rest\<rparr>"
      have rb: "rbuf l = frame_header T False (length c) @ c @ (enc T cs @ rest)"
        using Cons.prems(8) ne by (simp add: enc_Cons)
      have "\<exists>rf lf. (\<forall>fuel. length (enc T cs) < fuel \<longrightarrow>
                      fbr_ReadAll fuel k ?rd ?ld = Some (concat cs, EOF, rf, lf)) \<and>
                 (r_bytesLeftToLimit ?rd < 0 \<or> int (length (concat cs)) < r_bytesLeftToLimit ?rd
                    \<longrightarrow> rbuf lf = rest)"
      proof (rule Cons.IH)
        show "0 < k" by (rule Cons.prems(1))
        show "\<not> closed ?ld" using Cons.prems(2) by simp
        show "cs \<noteq> []" by (rule ne)
        show "\<forall>c\<in>set cs. length c \<le> MAX_PAYLOAD_LENGTH" using Cons.prems(4) by simp
        show "PayloadLength (r_f ?rd) = 0" by simp
        show "\<not> NoMoreFrames (r_f ?rd)" by simp
        show "r_frameType ?rd = T" using Cons.prems(7) by simp
        show "rbuf ?ld = enc T cs @ rest" by simp
        show "r_bytesLeftToLimit ?rd < 0 \<or> int (length (concat cs)) \<le> r_bytesLeftToLimit ?rd"
          using Cons.prems(9) by auto
      qed
      then obtain rf lf where
        ih: "\<And>fuel. length (enc T cs) < fuel \<Longrightarrow>
                      fbr_ReadAll fuel k ?rd ?ld = Some (concat cs, EOF, rf, lf)"
        and ihr: "r_bytesLeftToLimit ?rd < 0 \<or> int (length (concat cs)) < r_bytesLeftToLimit ?rd
                    \<longrightarrow> rbuf lf = rest"
        by blast
      have "\<forall>fuel. length (enc T (c # cs)) < fuel \<longrightarrow>
             fbr_ReadAll fuel k r l = Some (concat (c # cs), EOF, rf, lf)"
      proof (intro allI impI)
        fix fuel assume "length (enc T (c # cs)) < fuel"
        then have fu: "length (enc T cs) + length c + 1 < fuel"
          using ne by (simp add: enc_Cons)
        show "fbr_ReadAll fuel k r l = Some (concat (c # cs), EOF, rf, lf)"
          using ReadAll_frame [OF Cons.prems(1,2,5,6,7) False blc rb cl ih fu] by simp
      qed
      moreover have "r_bytesLeftToLimit r < 0 \<or> int (length (concat (c # cs))) < r_bytesLeftToLimit r
                    \<longrightarrow> rbuf lf = rest"
        using ihr by auto
      ultimately show ?thesis by blast
    qed
  qed
qed

lemma length_le_concat: "\<forall>c \<in> set cs. c \<noteq> [] \<Longrightarrow> length cs \<le> length (concat cs)"
proof (induction cs)
  case Nil
  show ?case by simp
next
  case (Cons c cs)
  then have ih: "length cs \<le> length (concat cs)" by simp
  from Cons.prems obtain x xs where "c = x # xs" by (cases c) auto
  then show ?case using ih by simp
qed

lemma enc_snoc: "enc T (cs @ [c]) = encF T cs @ frame_header T True (length c) @ c"
  by (induction cs) (simp_all add: enc_Cons)

lemma NewFrameBridgingWriter_sel:
  "w_payloadLength (NewFrameBridgingWriter T x) = int MAX_PAYLOAD_LENGTH"
  "w_buffer (NewFrameBridgingWriter T x) = []"
  "w_bytesLeftToLimit (NewFrameBridgingWriter T x) = x"
  "w_frameType (NewFrameBridgingWriter T x) = T"
  by (simp_all add: NewFrameBridgingWriter_def)

lemma Write_Close_good:
  assumes l: "good l" and lim: "lim < 0 \<or> int (length S) \<le> lim" and fuel: "length S < fuel"
  shows "\<exists>cs stray w1 l1 w2.
           fbw_Write fuel S (NewFrameBridgingWriter T lim) l = Some (length S, None, w1, l1) \<and>
           fbw_Close w1 l1 = (None, w2, l\<lparr>wbuf := wbuf l @ enc T cs @ stray\<rparr>) \<and>
           concat cs = S \<and> cs \<noteq> [] \<and> (\<forall>c \<in> set cs. length c \<le> MAX_PAYLOAD_LENGTH) \<and>
           length cs \<le> length S + 1 \<and>
           (lim < 0 \<or> int (length S) < lim \<longrightarrow> stray = [])"
proof -
  let ?w = "NewFrameBridgingWriter T lim"
  have MAXpos: "0 < MAX_PAYLOAD_LENGTH" by (simp add: MAX_PAYLOAD_LENGTH_def)
  have w: "w_payloadLength ?w = int MAX_PAYLOAD_LENGTH" "w_buffer ?w = []"
    "w_bytesLeftToLimit ?w = lim" "w_frameType ?w = T"
    by (simp_all add: NewFrameBridgingWriter_def)
  have "\<exists>cs buf' X.
          fbw_Write_loop fuel S 0 ?w l =
          Some (length S, None,
                ?w\<lparr>w_buffer := buf', w_bytesLeftToLimit := lim - int (length S)\<rparr>,
                l\<lparr>wbuf := wbuf l @ X\<rparr>) \<and>
          (lim = int (length S) \<and> 0 < length S \<longrightarrow>
              buf' = [] \<and> X = enc T cs \<and> cs \<noteq> [] \<and> concat cs = S) \<and>
          (\<not> (lim = int (length S) \<and> 0 < length S) \<longrightarrow>
              X = encF T cs \<and> concat cs @ buf' = S \<and> length buf' < MAX_PAYLOAD_LENGTH) \<and>
          (\<forall>c \<in> set cs. c \<noteq> [] \<and> length c \<le> MAX_PAYLOAD_LENGTH)"
    using Write_loop_good [OF l w(1) le_refl, of 0 S fuel] MAXpos lim fuel
    by (simp add: NewFrameBridgingWriter_sel)
  then obtain cs buf' X where
    r: "fbw_Write_loop fuel S 0 ?w l =
          Some (length S, None,
                ?w\<lparr>w_buffer := buf', w_bytesLeftToLimit := lim - int (length S)\<rparr>,
                l\<lparr>wbuf := wbuf l @ X\<rparr>)"
    and ex: "lim = int (length S) \<and> 0 < length S \<longrightarrow>
              buf' = [] \<and> X = enc T cs \<and> cs \<noteq> [] \<and> concat cs = S"
    and nex: "\<not> (lim = int (length S) \<and> 0 < length S) \<longrightarrow>
              X = encF T cs \<and> concat cs @ buf' = S \<and> length buf' < MAX_PAYLOAD_LENGTH"
    and all: "\<forall>c \<in> set cs. c \<noteq> [] \<and> length c \<le> MAX_PAYLOAD_LENGTH"
    by blast
  let ?w1 = "?w\<lparr>w_buffer := buf', w_bytesLeftToLimit := lim - int (length S)\<rparr>"
  let ?l1 = "l\<lparr>wbuf := wbuf l @ X\<rparr>"
  have wr: "fbw_Write fuel S ?w l = Some (length S, None, ?w1, ?l1)"
    using r by (simp add: fbw_Write_def)
  have bl: "length buf' \<le> MAX_PAYLOAD_LENGTH" using ex nex by (cases "lim = int (length S) \<and> 0 < length S") auto
  have cl: "fbw_Close ?w1 ?l1 =
          (None, ?w1\<lparr>w_buffer := []\<rparr>,
           l\<lparr>wbuf := wbuf l @ X @ frame_header T True (length buf') @ buf'\<rparr>)"
    using flush_good [of ?l1 ?w1 True] l bl w by (simp add: fbw_Close_def)
  have lcs: "length cs \<le> length (concat cs)" using all by (simp add: length_le_concat)
  show ?thesis
  proof (cases "lim = int (length S) \<and> 0 < length S")
    case True
    with ex have x: "buf' = []" "X = enc T cs" "cs \<noteq> []" "concat cs = S" by simp_all
    have c2: "fbw_Close ?w1 ?l1 =
          (None, ?w1\<lparr>w_buffer := []\<rparr>,
           l\<lparr>wbuf := wbuf l @ enc T cs @ frame_header T True 0\<rparr>)"
      using cl x by simp
    have "concat cs = S \<and> cs \<noteq> [] \<and> (\<forall>c \<in> set cs. length c \<le> MAX_PAYLOAD_LENGTH) \<and>
           length cs \<le> length S + 1 \<and>
           (lim < 0 \<or> int (length S) < lim \<longrightarrow> frame_header T True 0 = [])"
      using x all lcs True by auto
    with wr c2 show ?thesis by blast
  next
    case False
    with nex have x: "X = encF T cs" "concat cs @ buf' = S" "length buf' < MAX_PAYLOAD_LENGTH"
      by simp_all
    have c2: "fbw_Close ?w1 ?l1 =
          (None, ?w1\<lparr>w_buffer := []\<rparr>,
           l\<lparr>wbuf := wbuf l @ enc T (cs @ [buf']) @ []\<rparr>)"
      using cl x by (simp add: enc_snoc)
    have ls: "length (concat cs) \<le> length S" using x(2) by (metis length_append le_add1)
    have "concat (cs @ [buf']) = S \<and> cs @ [buf'] \<noteq> [] \<and>
           (\<forall>c \<in> set (cs @ [buf']). length c \<le> MAX_PAYLOAD_LENGTH) \<and>
           length (cs @ [buf']) \<le> length S + 1 \<and>
           (lim < 0 \<or> int (length S) < lim \<longrightarrow> ([]::byte list) = [])"
      using x all lcs ls by auto
    with wr c2 show ?thesis by blast
  qed
qed

text \<open>
  Claim C9.  On an open channel whose transport does not fail: a byte sequence \<open>S\<close> that
  the writer's total limit admits (no limit, or at least \<open>length S\<close>), written through a
  fresh bridging writer with one \<open>Write\<close> and the final \<open>Close\<close>, and read on the peer's
  side through a fresh bridging reader of the same frame type and limit with any read
  buffer of at least one byte, comes out as exactly \<open>S\<close> followed by \<open>EOF\<close>; without a
  limit, or below it, the reader stops right behind the written frames.  A single frame
  \<open>(T, nomore, length P)\<close> with its payload \<open>P\<close> of at most 4 MiB, written and then read,
  gives back the same header fields and the same payload.  The bound \<open>2^63\<close> is the range
  in which the model's integers are Go's \<open>int\<close>; the fuel covers both loops.
\<close>

theorem C9_framing_roundtrip:
  assumes "\<not> closed l" and "wbudget l = None"
    and "lim < 0 \<or> int (length S) \<le> lim"
    and "length S < 2 ^ 63"
    and "0 < lenb"
    and "7 * length S + 6 < fuel"
    and "length P \<le> MAX_PAYLOAD_LENGTH"
  shows "(\<exists>left. stream_roundtrip fuel lenb T lim S l rest = Some (Inr (S, EOF, left)) \<and>
                 (lim < 0 \<or> int (length S) < lim \<longrightarrow> left = rest)) \<and>
         fst (write_frame_with_payload T nomore P l) = None \<and>
         fst (read_frame_with_payload
                (peer_of (length (wbuf l)) (snd (write_frame_with_payload T nomore P l)) rest))
           = Inr (\<lparr>Type = T, NoMoreFrames = nomore, PayloadLength = of_nat (length P)\<rparr>, P) \<and>
         rbuf (snd (read_frame_with_payload
                (peer_of (length (wbuf l)) (snd (write_frame_with_payload T nomore P l)) rest)))
           = rest"
proof -
  have l: "good l" using assms(1,2) by (simp add: good_def)
  have f1: "length S < fuel" using assms(6) by simp
  from Write_Close_good [OF l assms(3) f1, of T]
  obtain cs stray w1 l1 w2 where
    wr: "fbw_Write fuel S (NewFrameBridgingWriter T lim) l = Some (length S, None, w1, l1)"
    and cl: "fbw_Close w1 l1 = (None, w2, l\<lparr>wbuf := wbuf l @ enc T cs @ stray\<rparr>)"
    and cs: "concat cs = S" "cs \<noteq> []" "\<forall>c \<in> set cs. length c \<le> MAX_PAYLOAD_LENGTH"
      "length cs \<le> length S + 1"
    and st: "lim < 0 \<or> int (length S) < lim \<longrightarrow> stray = []"
    by blast
  let ?p = "peer_of (length (wbuf l)) (l\<lparr>wbuf := wbuf l @ enc T cs @ stray\<rparr>) rest"
  let ?r = "NewFrameBridgingReader T lim"
  have p: "\<not> closed ?p" "rbuf ?p = enc T cs @ (stray @ rest)"
    by (simp_all add: peer_of_def)
  have r: "PayloadLength (r_f ?r) = 0" "\<not> NoMoreFrames (r_f ?r)" "r_frameType ?r = T"
    "r_bytesLeftToLimit ?r = lim"
    by (simp_all add: NewFrameBridgingReader_def Frame_zero_def)
  have rl: "r_bytesLeftToLimit ?r < 0 \<or> int (length (concat cs)) \<le> r_bytesLeftToLimit ?r"
    using assms(3) cs(1) r(4) by simp
  from ReadAll_frames [OF assms(5) p(1) cs(2,3) r(1,2,3) p(2) rl]
  obtain rf lf where
    ra: "\<And>fu. length (enc T cs) < fu \<Longrightarrow> fbr_ReadAll fu lenb ?r ?p = Some (concat cs, EOF, rf, lf)"
    and rr: "r_bytesLeftToLimit ?r < 0 \<or> int (length (concat cs)) < r_bytesLeftToLimit ?r
                \<longrightarrow> rbuf lf = stray @ rest"
    by blast
  have f2: "length (enc T cs) < fuel"
    using cs(1,4) assms(6) by (simp add: length_enc)
  have rt: "stream_roundtrip fuel lenb T lim S l rest = Some (Inr (S, EOF, rbuf lf))"
    using wr cl ra [OF f2] cs(1) by (simp add: stream_roundtrip_def)
  have left: "lim < 0 \<or> int (length S) < lim \<longrightarrow> rbuf lf = rest"
    using rr st r(4) cs(1) by auto
  have s1: "\<exists>left. stream_roundtrip fuel lenb T lim S l rest = Some (Inr (S, EOF, left)) \<and>
                 (lim < 0 \<or> int (length S) < lim \<longrightarrow> left = rest)"
    using rt left by blast
  let ?w = "\<lparr>w_frameType = T, w_bytesLeftToLimit = - 1,
             w_payloadLength = int MAX_PAYLOAD_LENGTH, w_buffer = P\<rparr>"
  have wf: "write_frame_with_payload T nomore P l =
              (None, l\<lparr>wbuf := wbuf l @ frame_header T nomore (length P) @ P\<rparr>)"
    using flush_good [of l ?w nomore] l assms(7) by (simp add: write_frame_with_payload_def)
  let ?q = "peer_of (length (wbuf l)) (l\<lparr>wbuf := wbuf l @ frame_header T nomore (length P) @ P\<rparr>) rest"
  have q: "\<not> closed ?q" "rbuf ?q = frame_header T nomore (length P) @ (P @ rest)"
    by (simp_all add: peer_of_def)
  have rf: "readFrame ?q = (\<lparr>Type = T, NoMoreFrames = nomore, PayloadLength = of_nat (length P)\<rparr>,
                            None, ?q\<lparr>rbuf := P @ rest\<rparr>)"
    by (rule readFrame_good [OF q assms(7)])
  have full: "io_ReadFull (length P) (?q\<lparr>rbuf := P @ rest\<rparr>) = (Inr P, ?q\<lparr>rbuf := rest\<rparr>)"
    by (simp add: io_ReadFull_def peer_of_def)
  have rd: "read_frame_with_payload ?q =
              (Inr (\<lparr>Type = T, NoMoreFrames = nomore, PayloadLength = of_nat (length P)\<rparr>, P),
               ?q\<lparr>rbuf := rest\<rparr>)"
    using rf full assms(7) by (simp add: read_frame_with_payload_def unat_of_nat_payload)
  show ?thesis using s1 wf rd by simp
qed

theorem C9_framing_roundtrip_witness:
  "stream_roundtrip 40 2 FrameTypeData (- 1) [1, 2, 3]
      \<lparr>rbuf = [], wbuf = [], closed = False, wbudget = None, close_result = None\<rparr> [9]
     = Some (Inr ([1, 2, 3], EOF, [9]))
   \<and> fst (read_frame_with_payload
           (peer_of 0
              (snd (write_frame_with_payload FrameTypeData True [4, 5]
                      \<lparr>rbuf = [], wbuf = [], closed = False, wbudget = None,
                        close_result = None\<rparr>)) [9]))
     = Inr (\<lparr>Type = FrameTypeData, NoMoreFrames = True, PayloadLength = 2\<rparr>, [4, 5])"
  using C9_framing_roundtrip
          [where l = "\<lparr>rbuf = [], wbuf = [], closed = False, wbudget = None,
                        close_result = None\<rparr>"
             and lim = "- 1" and S = "[1, 2, 3]" and lenb = 2 and fuel = 40
             and P = "[4, 5]" and T = FrameTypeData and rest = "[9]" and nomore = True]
  by (auto simp add: MAX_PAYLOAD_LENGTH_def)

section \<open>Claims about the pull orchestrator\<close>

lemma transfers_append: "transfers (a @ b) = transfers a @ transfers b"
  by (induction a rule: transfers.induct) auto

lemma received_bytes_append:
  "received_bytes (a @ b) = received_bytes a + received_bytes b"
  by (induction a rule: received_bytes.induct) auto

lemma adjacent_index: "adjacent p = map (\<lambda>i. (p ! i, p ! (i + 1))) [0..<length p - 1]"
proof (induction p rule: adjacent.induct)
  case (1 a b r)
  have "map (\<lambda>i. ((a # b # r) ! i, (a # b # r) ! (i + 1))) [0..<length (a # b # r) - 1]
      = map (\<lambda>i. ((a # b # r) ! i, (a # b # r) ! (i + 1))) (0 # map Suc [0..<length (b # r) - 1])"
    by (simp add: map_Suc_upt upt_conv_Cons del: upt_Suc)
  also have "\<dots> = (a, b) # map (\<lambda>i. ((b # r) ! i, (b # r) ! (i + 1))) [0..<length (b # r) - 1]"
    by (simp add: comp_def)
  finally show ?case using 1 by simp
qed simp_all

lemma steps_of_simps [simp]:
  "steps_of m [] = []"
  "steps_of m ((f, t) # pairs) =
     Requested (Remote m) (Some f) t # Received (Local m) [] # steps_of m pairs"
  by (simp_all add: steps_of_def)

lemma Received_in_steps_of: "Received p flags \<in> set (steps_of m pairs) \<Longrightarrow> flags = []"
  by (induction pairs) auto

lemma follow_incremental_path_succeeds:
  assumes W: "incremental_steps_succeed W"
  shows "\<exists>added. follow_incremental_path W m p pathRx tr =
            (Visited True,
             tr @ added @ [Log_finished_incremental_path (pathRx + received_bytes added)])
          \<and> transfers added = steps_of m (adjacent p)"
proof (induction p arbitrary: pathRx tr rule: adjacent.induct)
  case (1 a b r)
  obtain stream where s: "call_IncrementalTransferRequest W tr (Remote m) a b = Inr stream"
    using W unfolding incremental_steps_succeed_def by blast
  define tr1 where "tr1 = tr @ [Remote_IncrementalTransferRequest (Remote m) a b (Inr stream)]"
  obtain rx where rx: "run_ZFSRecv W tr1 (Local m) stream [] = (None, rx)"
    using W unfolding incremental_steps_succeed_def by (metis fst_conv surj_pair)
  define tr2 where
    "tr2 = tr1 @ [Local_ZFSRecv (Local m) stream [] None rx, Log_finished_incremental_transfer rx]"
  have step: "follow_incremental_path W m (a # b # r) pathRx tr
        = follow_incremental_path W m (b # r) (pathRx + rx) tr2"
    using s rx by (simp add: tr1_def tr2_def)
  from 1 [of "pathRx + rx" tr2] obtain added where
    a: "follow_incremental_path W m (b # r) (pathRx + rx) tr2 =
          (Visited True,
           tr2 @ added @ [Log_finished_incremental_path (pathRx + rx + received_bytes added)])"
    and t: "transfers added = steps_of m (adjacent (b # r))"
    by blast
  let ?added = "[Remote_IncrementalTransferRequest (Remote m) a b (Inr stream),
                 Local_ZFSRecv (Local m) stream [] None rx,
                 Log_finished_incremental_transfer rx] @ added"
  have "follow_incremental_path W m (a # b # r) pathRx tr =
          (Visited True,
           tr @ ?added @ [Log_finished_incremental_path (pathRx + received_bytes ?added)])"
    using step a by (simp add: tr1_def tr2_def add.assoc)
  moreover have "transfers ?added = steps_of m (adjacent (a # b # r))"
    using t by simp
  ultimately show ?case by blast
qed simp_all

text \<open>In any world the loop stops at the first failure, so its transfers are a prefix.\<close>

lemma follow_incremental_path_prefix:
  "\<exists>added v. follow_incremental_path W m p pathRx tr = (Visited v, tr @ added)
     \<and> prefix (transfers added) (steps_of m (adjacent p))"
proof (induction p arbitrary: pathRx tr rule: adjacent.induct)
  case (1 a b r)
  show ?case
  proof (cases "call_IncrementalTransferRequest W tr (Remote m) a b")
    case (Inl e)
    then show ?thesis by auto
  next
    case (Inr stream)
    define tr1 where
      "tr1 = tr @ [Remote_IncrementalTransferRequest (Remote m) a b (Inr stream)]"
    obtain err rx where rx: "run_ZFSRecv W tr1 (Local m) stream [] = (err, rx)"
      by (metis surj_pair)
    show ?thesis
    proof (cases err)
      case None
      define tr2 where
        "tr2 = tr1 @ [Local_ZFSRecv (Local m) stream [] None rx,
                      Log_finished_incremental_transfer rx]"
      from 1 [of "pathRx + rx" tr2] obtain added v where
        a: "follow_incremental_path W m (b # r) (pathRx + rx) tr2 = (Visited v, tr2 @ added)"
        and t: "prefix (transfers added) (steps_of m (adjacent (b # r)))"
        by blast
      let ?added = "[Remote_IncrementalTransferRequest (Remote m) a b (Inr stream),
                     Local_ZFSRecv (Local m) stream [] None rx,
                     Log_finished_incremental_transfer rx] @ added"
      have "follow_incremental_path W m (a # b # r) pathRx tr = (Visited v, tr @ ?added)"
        using Inr rx None a by (simp add: tr1_def tr2_def)
      moreover have "prefix (transfers ?added) (steps_of m (adjacent (a # b # r)))"
        using t by simp
      ultimately show ?thesis by blast
    next
      case (Some e)
      let ?added = "[Remote_IncrementalTransferRequest (Remote m) a b (Inr stream),
                     Local_ZFSRecv (Local m) stream [] (Some e) rx]"
      have "follow_incremental_path W m (a # b # r) pathRx tr = (Visited False, tr @ ?added)"
        using Inr rx Some by (simp add: tr1_def)
      moreover have "prefix (transfers ?added) (steps_of m (adjacent (a # b # r)))"
        by simp
      ultimately show ?thesis by blast
    qed
  qed
qed auto

lemma last_filter_Snapshot:
  "filter (\<lambda>v. vType v = Snapshot) vs \<noteq> [] \<Longrightarrow>
   vType (last (filter (\<lambda>v. vType v = Snapshot) vs)) = Snapshot"
  by (metis (mono_tags, lifting) last_in_set mem_Collect_eq set_filter)

lemma steps_of_index:
  "steps_of m (adjacent p) =
     concat (map (\<lambda>i. [Requested (Remote m) (Some (p ! i)) (p ! (i + 1)), Received (Local m) []])
               [0..<length p - 1])"
  unfolding steps_of_def adjacent_index [of p] by (simp add: comp_def)

text \<open>
  Claim C5.  For a filesystem whose diff is AllRight, under the policy MostRecent: when
  the diff's remote versions (\<open>MRCAPathRight\<close>) hold no snapshot, the closure returns
  false and adds nothing to the trace, so no transfer is requested.  Otherwise the first
  thing it does is one initial transfer request for the last snapshot of that list, a
  version whose type is Snapshot, and no other transfer request follows.
\<close>

theorem C5_most_recent_snapshot:
  assumes "Conflict diff = ConflictAllRight" and "policy = InitialReplPolicyMostRecent"
  shows "(filter (\<lambda>v. vType v = Snapshot) (MRCAPathRight diff) = [] \<longrightarrow>
            sync_by_diff W policy m placeholder diff tr = (Visited False, tr)) \<and>
         (filter (\<lambda>v. vType v = Snapshot) (MRCAPathRight diff) \<noteq> [] \<longrightarrow>
            vType (last (filter (\<lambda>v. vType v = Snapshot) (MRCAPathRight diff))) = Snapshot \<and>
            (\<exists>added. snd (sync_by_diff W policy m placeholder diff tr) = tr @ added \<and>
               (\<exists>rest. transfers added =
                    Requested (Remote m) None (last (filter (\<lambda>v. vType v = Snapshot) (MRCAPathRight diff))) # rest
                  \<and> (\<forall>t \<in> set rest. \<exists>p flags. t = Received p flags))))"
proof (intro conjI impI)
  assume "filter (\<lambda>v. vType v = Snapshot) (MRCAPathRight diff) = []"
  then show "sync_by_diff W policy m placeholder diff tr = (Visited False, tr)"
    using assms by (simp add: sync_by_diff_def)
next
  assume ne: "filter (\<lambda>v. vType v = Snapshot) (MRCAPathRight diff) \<noteq> []"
  then show "vType (last (filter (\<lambda>v. vType v = Snapshot) (MRCAPathRight diff))) = Snapshot"
    by (rule last_filter_Snapshot)
  let ?v = "last (filter (\<lambda>v. vType v = Snapshot) (MRCAPathRight diff))"
  have nth: "filter (\<lambda>v. vType v = Snapshot) (MRCAPathRight diff) !
          (length (filter (\<lambda>v. vType v = Snapshot) (MRCAPathRight diff)) - 1) = ?v"
    using ne by (simp add: last_conv_nth)
  have len: "\<not> length (filter (\<lambda>v. vType v = Snapshot) (MRCAPathRight diff)) < 1"
    using ne by (simp add: less_Suc_eq_0_disj)
  show "\<exists>added. snd (sync_by_diff W policy m placeholder diff tr) = tr @ added \<and>
               (\<exists>rest. transfers added = Requested (Remote m) None ?v # rest
                  \<and> (\<forall>t \<in> set rest. \<exists>p flags. t = Received p flags))"
    using assms len nth
    by (auto simp add: sync_by_diff_def Let_def split: sum.splits prod.splits)
qed


theorem C5_most_recent_snapshot_witness:
  "sync_by_diff calm_world InitialReplPolicyMostRecent tank_db False
      \<lparr>Conflict = ConflictAllRight, MRCAPathLeft = [],
        MRCAPathRight = [snap ''a'' 1, snap ''b'' 2, bookmark ''c'' 3], IncrementalPath = []\<rparr> []
    = (Visited True,
       [Remote_InitialTransferRequest [''tank'', ''db''] (snap ''b'' 2) (Inr [1, 2, 3]),
        Local_ZFSRecv [''backup'', ''db''] [1, 2, 3] [''-u''] None 3,
        Local_ZFSSet [''backup'', ''db''] ''readonly'' ''on'' None])
   \<and> sync_by_diff calm_world InitialReplPolicyMostRecent tank_db False
      \<lparr>Conflict = ConflictAllRight, MRCAPathLeft = [],
        MRCAPathRight = [bookmark ''c'' 3], IncrementalPath = []\<rparr> []
    = (Visited False, [])"
  using C5_most_recent_snapshot [of "\<lparr>Conflict = ConflictAllRight, MRCAPathLeft = [],
        MRCAPathRight = [snap ''a'' 1, snap ''b'' 2, bookmark ''c'' 3], IncrementalPath = []\<rparr>"
        InitialReplPolicyMostRecent calm_world tank_db False "[]"]
       C5_most_recent_snapshot [of "\<lparr>Conflict = ConflictAllRight, MRCAPathLeft = [],
        MRCAPathRight = [bookmark ''c'' 3], IncrementalPath = []\<rparr>"
        InitialReplPolicyMostRecent calm_world tank_db False "[]"]
  by (simp add: sync_by_diff_def calm_world_def tank_db_def snap_def bookmark_def
        InitialReplPolicyMostRecent_def Let_def)

text \<open>
  Claim C6.  In an initial transfer (diff AllRight) every receive has the flags \<open>-u\<close>,
  \<open>-F\<close> when the local filesystem is a placeholder and \<open>-u\<close> alone when it is not;
  when the transfer request is answered with a stream there is exactly that one receive,
  right after the request.  On an incremental path every receive has no flags at all, so
  never \<open>-F\<close>.
\<close>

theorem C6_receive_flags:
  "(Conflict diff = ConflictAllRight \<longrightarrow>
      (\<exists>added. snd (sync_by_diff W policy m placeholder diff tr) = tr @ added \<and>
         (\<forall>p flags. Received p flags \<in> set (transfers added) \<longrightarrow>
              flags = (if placeholder then [''-u'', ''-F''] else [''-u''])) \<and>
         (\<forall>stream. policy = InitialReplPolicyMostRecent \<and>
              filter (\<lambda>v. vType v = Snapshot) (MRCAPathRight diff) \<noteq> [] \<and>
              call_InitialTransferRequest W tr (Remote m)
                (last (filter (\<lambda>v. vType v = Snapshot) (MRCAPathRight diff))) = Inr stream \<longrightarrow>
              transfers added =
                [Requested (Remote m) None (last (filter (\<lambda>v. vType v = Snapshot) (MRCAPathRight diff))),
                 Received (Local m) (if placeholder then [''-u'', ''-F''] else [''-u''])]))) \<and>
   (Conflict diff = ConflictIncremental \<longrightarrow>
      (\<exists>added. snd (sync_by_diff W policy m placeholder diff tr) = tr @ added \<and>
         (\<forall>p flags. Received p flags \<in> set (transfers added) \<longrightarrow> flags = [])))"
proof (intro conjI impI)
  assume A: "Conflict diff = ConflictAllRight"
  show "\<exists>added. snd (sync_by_diff W policy m placeholder diff tr) = tr @ added \<and>
         (\<forall>p flags. Received p flags \<in> set (transfers added) \<longrightarrow>
              flags = (if placeholder then [''-u'', ''-F''] else [''-u''])) \<and>
         (\<forall>stream. policy = InitialReplPolicyMostRecent \<and>
              filter (\<lambda>v. vType v = Snapshot) (MRCAPathRight diff) \<noteq> [] \<and>
              call_InitialTransferRequest W tr (Remote m)
                (last (filter (\<lambda>v. vType v = Snapshot) (MRCAPathRight diff))) = Inr stream \<longrightarrow>
              transfers added =
                [Requested (Remote m) None (last (filter (\<lambda>v. vType v = Snapshot) (MRCAPathRight diff))),
                 Received (Local m) (if placeholder then [''-u'', ''-F''] else [''-u''])])"
    using A
    by (auto simp add: sync_by_diff_def Let_def last_conv_nth less_Suc_eq_0_disj
          split: sum.splits prod.splits)
next
  assume I: "Conflict diff = ConflictIncremental"
  obtain added v where a: "follow_incremental_path W m (IncrementalPath diff) 0 tr = (Visited v, tr @ added)"
    and p: "prefix (transfers added) (steps_of m (adjacent (IncrementalPath diff)))"
    using follow_incremental_path_prefix by blast
  have r: "\<forall>p flags. Received p flags \<in> set (transfers added) \<longrightarrow> flags = []"
    using p Received_in_steps_of set_mono_prefix by blast
  show "\<exists>added. snd (sync_by_diff W policy m placeholder diff tr) = tr @ added \<and>
         (\<forall>p flags. Received p flags \<in> set (transfers added) \<longrightarrow> flags = [])"
  proof (cases "placeholder \<or> length (IncrementalPath diff) < 2")
    case True
    then have "snd (sync_by_diff W policy m placeholder diff tr) = tr @ []"
      using I by (auto simp: sync_by_diff_def)
    then show ?thesis by (metis empty_iff list.set(1) transfers.simps(1))
  next
    case False
    then have "snd (sync_by_diff W policy m placeholder diff tr) = tr @ added"
      using I a by (auto simp: sync_by_diff_def)
    then show ?thesis using r by blast
  qed
qed


text \<open>
  Claim C7.  For a filesystem whose diff is Incremental (and which is no placeholder, the
  closure panics otherwise): with fewer than two elements in \<open>IncrementalPath\<close> the
  closure returns true and adds nothing to the trace.  With two or more, the transfers
  are, in index order, one incremental transfer request for the pair
  \<open>(IncrementalPath[i], IncrementalPath[i+1])\<close> followed by one receive, up to the first
  step that fails; when no step fails these are the transfers of all pairs, and the
  closing log line reports the sum of the bytes the receives took in.
\<close>

theorem C7_incremental_path:
  assumes "Conflict diff = ConflictIncremental" and "\<not> placeholder"
  shows "(length (IncrementalPath diff) < 2 \<longrightarrow>
            sync_by_diff W policy m placeholder diff tr = (Visited True, tr)) \<and>
         (2 \<le> length (IncrementalPath diff) \<longrightarrow>
            (\<exists>added v. sync_by_diff W policy m placeholder diff tr = (Visited v, tr @ added) \<and>
               prefix (transfers added)
                 (concat (map (\<lambda>i. [Requested (Remote m) (Some (IncrementalPath diff ! i))
                                        (IncrementalPath diff ! (i + 1)),
                                     Received (Local m) []])
                            [0..<length (IncrementalPath diff) - 1]))) \<and>
            (incremental_steps_succeed W \<longrightarrow>
               (\<exists>added. sync_by_diff W policy m placeholder diff tr =
                    (Visited True,
                     tr @ added @ [Log_finished_incremental_path (received_bytes added)]) \<and>
                  transfers added =
                    concat (map (\<lambda>i. [Requested (Remote m) (Some (IncrementalPath diff ! i))
                                         (IncrementalPath diff ! (i + 1)),
                                       Received (Local m) []])
                              [0..<length (IncrementalPath diff) - 1]))))"
proof (intro conjI impI)
  assume "length (IncrementalPath diff) < 2"
  then show "sync_by_diff W policy m placeholder diff tr = (Visited True, tr)"
    using assms by (simp add: sync_by_diff_def)
next
  assume len: "2 \<le> length (IncrementalPath diff)"
  then have eq: "sync_by_diff W policy m placeholder diff tr =
               follow_incremental_path W m (IncrementalPath diff) 0 tr"
    using assms by (simp add: sync_by_diff_def)
  show "\<exists>added v. sync_by_diff W policy m placeholder diff tr = (Visited v, tr @ added) \<and>
               prefix (transfers added)
                 (concat (map (\<lambda>i. [Requested (Remote m) (Some (IncrementalPath diff ! i))
                                        (IncrementalPath diff ! (i + 1)),
                                     Received (Local m) []])
                            [0..<length (IncrementalPath diff) - 1]))"
    unfolding eq steps_of_index [symmetric] by (rule follow_incremental_path_prefix)
  assume W: "incremental_steps_succeed W"
  show "\<exists>added. sync_by_diff W policy m placeholder diff tr =
                    (Visited True,
                     tr @ added @ [Log_finished_incremental_path (received_bytes added)]) \<and>
                  transfers added =
                    concat (map (\<lambda>i. [Requested (Remote m) (Some (IncrementalPath diff ! i))
                                         (IncrementalPath diff ! (i + 1)),
                                       Received (Local m) []])
                              [0..<length (IncrementalPath diff) - 1])"
    unfolding eq steps_of_index [symmetric]
    using follow_incremental_path_succeeds [OF W, of m "IncrementalPath diff" 0 tr] by simp
qed

theorem C7_incremental_path_witness:
  "incremental_steps_succeed calm_world \<and>
   sync_by_diff calm_world InitialReplPolicyMostRecent tank_db False
      \<lparr>Conflict = ConflictIncremental, MRCAPathLeft = [], MRCAPathRight = [],
        IncrementalPath = [snap ''2'' 2, snap ''3'' 3, snap ''4'' 4]\<rparr> []
    = (Visited True,
       [Remote_IncrementalTransferRequest [''tank'', ''db''] (snap ''2'' 2) (snap ''3'' 3) (Inr [4, 5, 6]),
        Local_ZFSRecv [''backup'', ''db''] [4, 5, 6] [] None 3,
        Log_finished_incremental_transfer 3,
        Remote_IncrementalTransferRequest [''tank'', ''db''] (snap ''3'' 3) (snap ''4'' 4) (Inr [4, 5, 6]),
        Local_ZFSRecv [''backup'', ''db''] [4, 5, 6] [] None 3,
        Log_finished_incremental_transfer 3,
        Log_finished_incremental_path 6])
   \<and> sync_by_diff calm_world InitialReplPolicyMostRecent tank_db False
      \<lparr>Conflict = ConflictIncremental, MRCAPathLeft = [], MRCAPathRight = [],
        IncrementalPath = [snap ''2'' 2]\<rparr> []
    = (Visited True, [])"
  using C7_incremental_path [of "\<lparr>Conflict = ConflictIncremental, MRCAPathLeft = [], MRCAPathRight = [],
        IncrementalPath = [snap ''2'' 2, snap ''3'' 3, snap ''4'' 4]\<rparr>" False calm_world
        InitialReplPolicyMostRecent tank_db "[]"]
     C7_incremental_path [of "\<lparr>Conflict = ConflictIncremental, MRCAPathLeft = [], MRCAPathRight = [],
        IncrementalPath = [snap ''2'' 2]\<rparr>" False calm_world
        InitialReplPolicyMostRecent tank_db "[]"]
  by (simp add: sync_by_diff_def calm_world_def tank_db_def incremental_steps_succeed_def Let_def)

theorem C6_receive_flags_witness:
  "sync_by_diff calm_world InitialReplPolicyMostRecent tank_db True
      \<lparr>Conflict = ConflictAllRight, MRCAPathLeft = [],
        MRCAPathRight = [snap ''a'' 1, snap ''b'' 2, bookmark ''c'' 3], IncrementalPath = []\<rparr> []
    = (Visited True,
       [Remote_InitialTransferRequest [''tank'', ''db''] (snap ''b'' 2) (Inr [1, 2, 3]),
        Local_ZFSRecv [''backup'', ''db''] [1, 2, 3] [''-u'', ''-F''] None 3,
        Local_ZFSSet [''backup'', ''db''] ''readonly'' ''on'' None])
   \<and> snd (sync_by_diff calm_world InitialReplPolicyMostRecent tank_db False
      \<lparr>Conflict = ConflictIncremental, MRCAPathLeft = [], MRCAPathRight = [],
        IncrementalPath = [snap ''2'' 2, snap ''3'' 3]\<rparr> [])
    = [Remote_IncrementalTransferRequest [''tank'', ''db''] (snap ''2'' 2) (snap ''3'' 3) (Inr [4, 5, 6]),
        Local_ZFSRecv [''backup'', ''db''] [4, 5, 6] [] None 3,
        Log_finished_incremental_transfer 3,
        Log_finished_incremental_path 3]"
  using C6_receive_flags [of "\<lparr>Conflict = ConflictAllRight, MRCAPathLeft = [],
        MRCAPathRight = [snap ''a'' 1, snap ''b'' 2, bookmark ''c'' 3], IncrementalPath = []\<rparr>"
        calm_world InitialReplPolicyMostRecent tank_db True "[]"]
     C6_receive_flags [of "\<lparr>Conflict = ConflictIncremental, MRCAPathLeft = [], MRCAPathRight = [],
        IncrementalPath = [snap ''2'' 2, snap ''3'' 3]\<rparr>"
        calm_world InitialReplPolicyMostRecent tank_db False "[]"]
  by (simp add: sync_by_diff_def calm_world_def tank_db_def snap_def bookmark_def
        InitialReplPolicyMostRecent_def Let_def)


section \<open>Claims about the dispatcher\<close>








section \<open>Claims about the handler\<close>

text \<open>
  Claim C2 says that a FilesystemVersionsRequest for a path the dataset filter denies
  returns an error without listing versions.  Both editions of the handler drop the
  result of the check.  With a filter that denies every path, \<open>pullACLCheck\<close> reports the
  denial, and \<open>HandleFilesystemVersionsRequest\<close> still invokes
  \<open>ZFSListFilesystemVersions\<close> for the denied path and returns its versions with a nil
  error.
\<close>

theorem C2_acl_result_dropped:
  "pullACLCheck \<lparr>dsf = (\<lambda>p. (False, None)), fsvf = (\<lambda>v. (True, None))\<rparr>
       [''tank'', ''secret''] None
     = Some (Errorf ''ACL prohibits access to tank/secret'')
   \<and> HandleFilesystemVersionsRequest
       \<lparr>dsf = (\<lambda>p. (False, None)), fsvf = (\<lambda>v. (True, None))\<rparr>
       \<lparr>ZFSListFilesystemVersions = (\<lambda>p f. ([snap ''a'' 1], None)),
        ZFSSend = (\<lambda>p v t. (Some [1, 2, 3], None))\<rparr>
       \<lparr>fvr_Filesystem = [''tank'', ''secret'']\<rparr>
     = (None, [snap ''a'' 1], [Call_ZFSListFilesystemVersions [''tank'', ''secret'']])
   \<and> pullACLCheck1 \<lparr>PullACL = (\<lambda>p. (False, None))\<rparr> [''tank'', ''secret'']
     = Some (Errorf ''ACL prohibits access to tank/secret'')
   \<and> HandleFilesystemVersionsRequest1
       \<lparr>PullACL = (\<lambda>p. (False, None))\<rparr>
       \<lparr>ZFSListFilesystemVersions = (\<lambda>p f. ([snap ''a'' 1], None)),
        ZFSSend = (\<lambda>p v t. (Some [1, 2, 3], None))\<rparr>
       \<lparr>fvr_Filesystem = [''tank'', ''secret'']\<rparr>
     = (None, [snap ''a'' 1], [Call_ZFSListFilesystemVersions [''tank'', ''secret'']])"
  by (simp add: pullACLCheck_def pullACLCheck1_def HandleFilesystemVersionsRequest_def
        HandleFilesystemVersionsRequest1_def Let_def)

text \<open>
  Claim C3.  \<open>HandleInitialTransferRequest\<close> passes the check exactly when the dataset
  filter admits the path and the version filter admits the version (each returns
  \<open>(true, nil)\<close>).  Then it invokes \<open>ZFSSend\<close> once, for that path and version.  In every
  other case, a denial or an error of either filter, it returns an error, stores no
  stream and does not invoke \<open>ZFSSend\<close>.  The first edition of the handler, which has the
  dataset filter only, does the same for that filter.
\<close>

theorem C3_initial_transfer_acl:
  "(pullACLCheck h (itr_Filesystem r) (Some (itr_FilesystemVersion r)) = None \<longleftrightarrow>
      dsf h (itr_Filesystem r) = (True, None) \<and> fsvf h (itr_FilesystemVersion r) = (True, None)) \<and>
   (dsf h (itr_Filesystem r) = (True, None) \<and> fsvf h (itr_FilesystemVersion r) = (True, None) \<longrightarrow>
      HandleInitialTransferRequest h z r =
        (snd (ZFSSend z (itr_Filesystem r) (itr_FilesystemVersion r) None),
         fst (ZFSSend z (itr_Filesystem r) (itr_FilesystemVersion r) None),
         [Call_ZFSSend (itr_Filesystem r) (itr_FilesystemVersion r) None])) \<and>
   (\<not> (dsf h (itr_Filesystem r) = (True, None) \<and> fsvf h (itr_FilesystemVersion r) = (True, None)) \<longrightarrow>
      (\<exists>err. HandleInitialTransferRequest h z r = (Some err, None, []))) \<and>
   (PullACL h1 (itr_Filesystem r) \<noteq> (True, None) \<longrightarrow>
      (\<exists>err. HandleInitialTransferRequest1 h1 z r = (Some err, None, [])))"
  by (cases "dsf h (itr_Filesystem r)"; cases "fsvf h (itr_FilesystemVersion r)";
      cases "PullACL h1 (itr_Filesystem r)")
     (auto simp: HandleInitialTransferRequest_def HandleInitialTransferRequest1_def
        pullACLCheck_def pullACLCheck1_def split: prod.splits option.splits)


theorem C3_initial_transfer_acl_witness:
  "HandleInitialTransferRequest
       \<lparr>dsf = (\<lambda>p. (True, None)), fsvf = (\<lambda>v. (vType v = Snapshot, None))\<rparr>
       \<lparr>ZFSListFilesystemVersions = (\<lambda>p f. ([], None)),
        ZFSSend = (\<lambda>p v t. (Some [1, 2, 3], None))\<rparr>
       \<lparr>itr_Filesystem = [''tank'', ''db''], itr_FilesystemVersion = bookmark ''c'' 3\<rparr>
     = (Some (Errorf ''ACL prohibits access to tank/db#c''), None, [])
   \<and> HandleInitialTransferRequest
       \<lparr>dsf = (\<lambda>p. (True, None)), fsvf = (\<lambda>v. (vType v = Snapshot, None))\<rparr>
       \<lparr>ZFSListFilesystemVersions = (\<lambda>p f. ([], None)),
        ZFSSend = (\<lambda>p v t. (Some [1, 2, 3], None))\<rparr>
       \<lparr>itr_Filesystem = [''tank'', ''db''], itr_FilesystemVersion = snap ''b'' 2\<rparr>
     = (None, Some [1, 2, 3], [Call_ZFSSend [''tank'', ''db''] (snap ''b'' 2) None])"
  using C3_initial_transfer_acl
          [of "\<lparr>dsf = (\<lambda>p. (True, None)), fsvf = (\<lambda>v. (vType v = Snapshot, None))\<rparr>"
              "\<lparr>itr_Filesystem = [''tank'', ''db''], itr_FilesystemVersion = bookmark ''c'' 3\<rparr>"
              "\<lparr>ZFSListFilesystemVersions = (\<lambda>p f. ([], None)),
                ZFSSend = (\<lambda>p v t. (Some [1, 2, 3], None))\<rparr>"
              "\<lparr>PullACL = (\<lambda>p. (False, None))\<rparr>"]
  by (simp add: HandleInitialTransferRequest_def pullACLCheck_def ToAbsPath_def snap_def
        bookmark_def)

end
